theory Spec2Isabelle
  imports Complex_Main "HOL-Library.Multiset"
begin

section \<open>Evaluation utilities of pytorch\_segmentation/evaluation.py\<close>

text \<open>
  The development embeds the metric pipeline of \<^verbatim>\<open>evaluation.py\<close>: the object-part
  remapping (\<^verbatim>\<open>to_pair\<close>), the aided prediction loop (\<^verbatim>\<open>outputs_tonp_gt\<close>), the index
  selector, the logit flattener, the metric calculators (\<^verbatim>\<open>get_iou\<close>,
  \<^verbatim>\<open>get_precision_recall\<close>) and the per-batch driver (\<^verbatim>\<open>validate_batch\<close>).

  Python integers and the int64 entries of numpy arrays are \<^typ>\<open>int\<close> (no count in
  this code comes near \<open>2 ^ 63\<close>). Exceptions are values of the type \<open>error\<close>, and a
  function that can raise returns \<open>error + 'a\<close>.
\<close>

datatype error = IndexError | ValueError | TypeError | RuntimeError

subsection \<open>Errors and loops\<close>

definition err_bind :: "error + 'a \<Rightarrow> ('a \<Rightarrow> error + 'b) \<Rightarrow> error + 'b" where
  "err_bind m f = (case m of Inl e \<Rightarrow> Inl e | Inr x \<Rightarrow> f x)"

text \<open>A list comprehension whose body can raise: the first exception ends it.\<close>

fun map_err :: "('a \<Rightarrow> error + 'b) \<Rightarrow> 'a list \<Rightarrow> error + 'b list" where
  "map_err f [] = Inr []"
| "map_err f (x # xs) =
     err_bind (f x) (\<lambda>y. err_bind (map_err f xs) (\<lambda>ys. Inr (y # ys)))"

text \<open>A \<^verbatim>\<open>for\<close> loop over a list that updates a state and can raise.\<close>

fun fold_err :: "('a \<Rightarrow> 's \<Rightarrow> error + 's) \<Rightarrow> 'a list \<Rightarrow> 's \<Rightarrow> error + 's" where
  "fold_err f [] s = Inr s"
| "fold_err f (x # xs) s = err_bind (f x s) (fold_err f xs)"

subsection \<open>Tensors and arrays\<close>

text \<open>
  A torch tensor and a numpy array are a shape, one stride per dimension and a storage;
  the element at an index is the storage cell at the sum of index times stride.
  \<open>tensor_wf\<close> is the invariant of the libraries: one stride per dimension, and every
  index within the shape addresses a cell of the storage. \<open>all_indices\<close> lists the
  indices of a shape in row-major order (the order of \<^verbatim>\<open>np.where\<close>, \<^verbatim>\<open>flatten\<close> and
  \<^verbatim>\<open>contiguous\<close>).
\<close>

record 'a tensor =
  shape :: "nat list"
  strides :: "nat list"
  storage :: "'a list"

fun all_indices :: "nat list \<Rightarrow> nat list list" where
  "all_indices [] = [[]]"
| "all_indices (n # ns) = concat (map (\<lambda>i. map ((#) i) (all_indices ns)) [0..<n])"

definition offset :: "nat list \<Rightarrow> nat list \<Rightarrow> nat" where
  "offset strd idx = sum_list (map2 (*) idx strd)"

fun c_strides :: "nat list \<Rightarrow> nat list" where
  "c_strides [] = []"
| "c_strides (n # ns) = prod_list ns # c_strides ns"

definition numel :: "'a tensor \<Rightarrow> nat" where
  "numel t = prod_list (shape t)"

definition tensor_wf :: "'a tensor \<Rightarrow> bool" where
  "tensor_wf t \<longleftrightarrow>
     length (strides t) = length (shape t)
     \<and> list_all (\<lambda>idx. offset (strides t) idx < length (storage t)) (all_indices (shape t))"

definition is_contiguous :: "'a tensor \<Rightarrow> bool" where
  "is_contiguous t \<longleftrightarrow> strides t = c_strides (shape t)"

text \<open>The element at an index that lies within the shape.\<close>

definition elem :: "'a tensor \<Rightarrow> nat list \<Rightarrow> 'a" where
  "elem t idx = storage t ! offset (strides t) idx"

text \<open>
  Indexing with Python integers, \<^verbatim>\<open>t[i, j, ...]\<close> with one integer per dimension: a
  negative index counts from the end, an index outside the dimension raises.
\<close>

fun norm_index :: "nat list \<Rightarrow> int list \<Rightarrow> error + nat list" where
  "norm_index [] [] = Inr []"
| "norm_index (n # ns) (i # is) =
     (let j = (if i < 0 then int n + i else i)
      in if 0 \<le> j \<and> j < int n
         then err_bind (norm_index ns is) (\<lambda>js. Inr (nat j # js))
         else Inl IndexError)"
| "norm_index _ _ = Inl IndexError"

definition tget :: "'a tensor \<Rightarrow> int list \<Rightarrow> error + 'a" where
  "tget t idx = err_bind (norm_index (shape t) idx) (\<lambda>js. Inr (elem t js))"

text \<open>The assignment \<^verbatim>\<open>t[idx] = v\<close> at an index within the shape.\<close>

definition tset :: "'a tensor \<Rightarrow> nat list \<Rightarrow> 'a \<Rightarrow> 'a tensor" where
  "tset t idx v = t\<lparr>storage := (storage t)[offset (strides t) idx := v]\<rparr>"

definition zeros_like :: "'b tensor \<Rightarrow> int tensor" where
  "zeros_like t =
     \<lparr>shape = shape t, strides = c_strides (shape t), storage = replicate (numel t) 0\<rparr>"

text \<open>\<^verbatim>\<open>flatten()\<close> of a numpy array: its elements in row-major order.\<close>

definition np_flatten :: "'a tensor \<Rightarrow> 'a list" where
  "np_flatten t = map (elem t) (all_indices (shape t))"

text \<open>
  \<^verbatim>\<open>permute\<close> reorders shape and strides and shares the storage; \<^verbatim>\<open>contiguous\<close> copies
  the elements into a fresh row-major storage. \<^verbatim>\<open>view\<close> gives a row-major tensor a new
  shape over the same storage; one size may be \<^verbatim>\<open>-1\<close> and is inferred. The model's
  \<^verbatim>\<open>view\<close> accepts row-major tensors only (torch accepts a few more layouts, none of
  which arises here) and raises otherwise.
\<close>

definition permute :: "'a tensor \<Rightarrow> nat list \<Rightarrow> error + 'a tensor" where
  "permute t dims =
     (if length (strides t) = length (shape t) \<and> sort dims = [0..<length (shape t)]
      then Inr (t\<lparr>shape := map (\<lambda>d. shape t ! d) dims, strides := map (\<lambda>d. strides t ! d) dims\<rparr>)
      else Inl RuntimeError)"

definition contiguous :: "'a tensor \<Rightarrow> 'a tensor" where
  "contiguous t =
     \<lparr>shape = shape t, strides = c_strides (shape t),
      storage = map (elem t) (all_indices (shape t))\<rparr>"

definition view :: "'a tensor \<Rightarrow> int list \<Rightarrow> error + 'a tensor" where
  "view t sizes =
     (let n = numel t;
          known = prod_list (map nat (filter (\<lambda>s. s \<noteq> - 1) sizes));
          reshaped = (\<lambda>shp. \<lparr>shape = shp, strides = c_strides shp, storage = storage t\<rparr>)
      in if \<not> is_contiguous t then Inl RuntimeError
         else if list_ex (\<lambda>s. s < - 1) sizes \<or> 1 < count_list sizes (- 1) then Inl RuntimeError
         else if - 1 \<in> set sizes
         then (if known = 0 \<or> n mod known \<noteq> 0 then Inl RuntimeError
               else Inr (reshaped (map (\<lambda>s. if s = - 1 then n div known else nat s) sizes)))
         else if known \<noteq> n then Inl RuntimeError
         else Inr (reshaped (map nat sizes)))"

subsection \<open>Flattening logits and annotations\<close>

text \<open>\<^verbatim>\<open>flatten_logits\<close> (lines 128-133) and \<^verbatim>\<open>flatten_annotations\<close> (lines 145-146).\<close>

definition flatten_logits :: "'a tensor \<Rightarrow> int \<Rightarrow> error + 'a tensor" where
  "flatten_logits logits number_of_classes =
     err_bind (permute logits [0, 2, 3, 1]) (\<lambda>logits_permuted.
       let logits_permuted_cont = contiguous logits_permuted
       in view logits_permuted_cont [- 1, number_of_classes])"

definition flatten_annotations :: "'a tensor \<Rightarrow> error + 'a tensor" where
  "flatten_annotations annotations = view annotations [- 1]"

subsection \<open>Index selector\<close>

text \<open>
  A one-dimensional index tensor carries its element type: \<^verbatim>\<open>torch.nonzero\<close> returns a
  LongTensor, while \<^verbatim>\<open>torch.Tensor([])\<close> constructs an empty tensor of the default
  type, a FloatTensor. \<^verbatim>\<open>torch.index_select\<close> takes the entries of a tensor along
  dimension 0 at the positions of an index tensor, which must be a LongTensor (any other
  type raises, a TypeError in the torch of this code and a RuntimeError later), with every
  position inside the dimension.
\<close>

datatype index_tensor = LongTensor "int list" | FloatTensor "real list"

definition index_select :: "'a list \<Rightarrow> index_tensor \<Rightarrow> error + 'a list" where
  "index_select xs index =
     (case index of
        FloatTensor _ \<Rightarrow> Inl TypeError
      | LongTensor positions \<Rightarrow>
          if list_all (\<lambda>i. 0 \<le> i \<and> i < int (length xs)) positions
          then Inr (map (\<lambda>i. xs ! nat i) positions)
          else Inl RuntimeError)"

text \<open>
  \<^verbatim>\<open>get_valid_annotations_index\<close> (lines 149-153), on the elements of the
  one-dimensional tensor \<^verbatim>\<open>flatten_annotations\<close> (here \<open>flat_annotations\<close>):
  \<^verbatim>\<open>torch.nonzero\<close> of the mask lists
  the positions that are not masked out, in increasing order.
\<close>

definition get_valid_annotations_index :: "int list \<Rightarrow> int \<Rightarrow> index_tensor" where
  "get_valid_annotations_index flat_annotations mask_out_value =
     (let nonz = filter (\<lambda>k. flat_annotations ! k \<noteq> mask_out_value)
                   [0..<length flat_annotations]
      in if length nonz = 0 then FloatTensor []
         else LongTensor (map int nonz))"

text \<open>\<^verbatim>\<open>get_valid_annos\<close> (lines 156-165) and \<^verbatim>\<open>get_valid_logits\<close> (lines 136-142).\<close>

definition get_valid_annos :: "int tensor \<Rightarrow> int \<Rightarrow> error + int list \<times> index_tensor" where
  "get_valid_annos anno mask_out_value =
     err_bind (flatten_annotations anno) (\<lambda>anno_flatten.
       let index = get_valid_annotations_index (np_flatten anno_flatten) mask_out_value
       in err_bind (index_select (np_flatten anno_flatten) index) (\<lambda>anno_flatten_valid.
            Inr (anno_flatten_valid, index)))"

definition tensor_rows :: "'a tensor \<Rightarrow> 'a list list" where
  "tensor_rows t =
     map (\<lambda>i. map (\<lambda>j. elem t [i, j]) [0..<shape t ! 1]) [0..<shape t ! 0]"

definition get_valid_logits :: "'a tensor \<Rightarrow> index_tensor \<Rightarrow> int \<Rightarrow> error + 'a list list" where
  "get_valid_logits logits index number_of_classes =
     err_bind (flatten_logits logits number_of_classes) (\<lambda>logits_flatten.
       index_select (tensor_rows logits_flatten) index)"

subsection \<open>Sample data\<close>

text \<open>Logits of shape (1, 2, 1, 2) and annotations of shape (1, 1, 2).\<close>

definition example_logits :: "int tensor" where
  "example_logits =
     \<lparr>shape = [1, 2, 1, 2], strides = [4, 2, 2, 1], storage = [10, 11, 20, 21]\<rparr>"

definition example_anno :: "int tensor" where
  "example_anno = \<lparr>shape = [1, 1, 2], strides = [2, 2, 1], storage = [3, 0]\<rparr>"

text \<open>
  Object-part logits of shape (1, 41, 1, 2): all scores are 0 but the score of channel 23
  at the first pixel, which is 5.
\<close>

definition example_objpart_logits :: "int tensor" where
  "example_objpart_logits =
     \<lparr>shape = [1, 41, 1, 2], strides = [82, 2, 2, 1], storage = (replicate 82 0)[46 := 5]\<rparr>"

definition example_semantic_anno :: "int tensor" where
  "example_semantic_anno = \<lparr>shape = [1, 1, 2], strides = [2, 2, 1], storage = [1, 0]\<rparr>"

definition example_predictions :: "int tensor" where
  "example_predictions = \<lparr>shape = [1, 1, 2], strides = [2, 2, 1], storage = [23, 0]\<rparr>"

subsection \<open>Object-part remapping\<close>

text \<open>
  \<^verbatim>\<open>to_pair\<close> is defined twice in the source, once inside \<^verbatim>\<open>outputs_tonp_gt\<close>
  (lines 202-207, returning the pair of channel indices) and once inside
  \<^verbatim>\<open>compress_objpart_logits\<close> (lines 243-248, returning the task bit as well).
\<close>

definition to_pair :: "int \<Rightarrow> int \<Rightarrow> int list" where
  "to_pair ind num_to_aggregate =
     (if ind > num_to_aggregate then [ind - num_to_aggregate, ind]
      else [ind, ind + num_to_aggregate])"

definition compress_to_pair :: "int \<Rightarrow> int \<Rightarrow> int \<times> int list" where
  "compress_to_pair ind num_to_aggregate =
     (if ind > num_to_aggregate then (1, [ind - num_to_aggregate, ind])
      else (0, [ind, ind + num_to_aggregate]))"

subsection \<open>Predictions\<close>

text \<open>
  \<^verbatim>\<open>np.argmax\<close> of a list: the position of the first greatest element; an empty list
  raises. Scores are elements of a linear order (no NaN).
\<close>

fun argmax_from :: "'a::linorder list \<Rightarrow> nat \<Rightarrow> nat \<Rightarrow> 'a \<Rightarrow> nat" where
  "argmax_from [] k best best_value = best"
| "argmax_from (x # xs) k best best_value =
     (if best_value < x then argmax_from xs (Suc k) k x
      else argmax_from xs (Suc k) best best_value)"

definition np_argmax :: "'a::linorder list \<Rightarrow> error + nat" where
  "np_argmax xs = (case xs of [] \<Rightarrow> Inl ValueError | x # rest \<Rightarrow> Inr (argmax_from rest 1 0 x))"

text \<open>
  The body of the loop of \<^verbatim>\<open>outputs_tonp_gt\<close> (lines 215-221) at one position of the
  annotation array, which has rank 3: the label's pair of channels, the two scores at the
  position, and the channel with the greater score. An array of rank below 3 raises at
  \<^verbatim>\<open>index[2]\<close>; a rank above 3 is outside the model and reported as an error, too.
\<close>

definition aided_prediction :: "'a::linorder tensor \<Rightarrow> int tensor \<Rightarrow> nat list \<Rightarrow> error + int" where
  "aided_prediction logits anno_np index =
     (case index of
        [batch_ind, i, j] \<Rightarrow>
          let anno_ind = elem anno_np index;
              num_to_aggregate = 20;
              channel_indices = to_pair anno_ind num_to_aggregate
          in err_bind
               (map_err (\<lambda>ci. tget logits [int batch_ind, ci, int i, int j]) channel_indices)
               (\<lambda>scores. err_bind (np_argmax scores) (\<lambda>k. Inr (channel_indices ! k)))
      | _ \<Rightarrow> Inl IndexError)"

text \<open>
  \<^verbatim>\<open>outputs_tonp_gt\<close> (lines 191-227). The loop visits the positions of
  \<^verbatim>\<open>np.where(np.logical_and(anno_np > 0, anno_np != 255))\<close> in row-major order and
  writes the aided prediction into the array of zeros. \<open>outputs_tonp_gt_unflattened\<close>
  is the call with \<^verbatim>\<open>flatten=False\<close>, \<open>outputs_tonp_gt\<close> the default call.
\<close>

definition outputs_tonp_gt_unflattened ::
  "'a::linorder tensor \<Rightarrow> int tensor \<Rightarrow> error + int tensor \<times> int tensor" where
  "outputs_tonp_gt_unflattened logits anno =
     (let anno_np = anno;
          predictions = zeros_like anno_np
      in err_bind
           (fold_err
              (\<lambda>index predictions.
                 err_bind (aided_prediction logits anno_np index)
                   (\<lambda>aided. Inr (tset predictions index aided)))
              (filter (\<lambda>index. elem anno_np index > 0 \<and> elem anno_np index \<noteq> 255)
                 (all_indices (shape anno_np)))
              predictions)
           (\<lambda>predictions. Inr (predictions, anno_np)))"

definition outputs_tonp_gt :: "'a::linorder tensor \<Rightarrow> int tensor \<Rightarrow> error + int list \<times> int list" where
  "outputs_tonp_gt logits anno =
     err_bind (outputs_tonp_gt_unflattened logits anno) (\<lambda>(predictions, anno_np).
       Inr (np_flatten predictions, np_flatten anno_np))"

text \<open>
  \<^verbatim>\<open>numpyify_logits_and_annotations\<close> (lines 168-188) with \<^verbatim>\<open>flatten=True\<close>:
  \<^verbatim>\<open>_logits.max(1)\<close> gives, for every position of the other dimensions, a channel of
  greatest score (the first one here); \<^verbatim>\<open>squeeze\<close> leaves the row-major order of the
  flattened result unchanged.
\<close>

definition numpyify_logits_and_annotations ::
  "'a::linorder tensor \<Rightarrow> int tensor \<Rightarrow> error + int list \<times> int list" where
  "numpyify_logits_and_annotations logits anno =
     (case shape logits of
        b # c # rest \<Rightarrow>
          if c = 0 then Inl RuntimeError
          else err_bind
                 (map_err
                    (\<lambda>idx. np_argmax (map (\<lambda>ci. elem logits (hd idx # ci # tl idx)) [0..<c]))
                    (all_indices (b # rest)))
                 (\<lambda>prediction. Inr (map int prediction, np_flatten anno))
      | _ \<Rightarrow> Inl IndexError)"

subsection \<open>Conversions of integers to floating point\<close>

text \<open>
  \<^verbatim>\<open>astype(np.float32)\<close> rounds an integer to the nearest number with a 24-bit
  significand, ties to even; the conversion of an int64 to a float64 does the same with
  53 bits. The float nearest to an integer is an integer again, so both conversions are
  functions on \<^typ>\<open>int\<close>. (The exponent range plays no role: an int64 is far below
  the largest float32.)
\<close>

fun bit_length :: "nat \<Rightarrow> nat" where
  "bit_length n = (if n = 0 then 0 else Suc (bit_length (n div 2)))"

declare bit_length.simps [simp del]

definition round_to_precision :: "nat \<Rightarrow> nat \<Rightarrow> nat" where
  "round_to_precision p n =
     (if bit_length n \<le> p then n
      else let s = bit_length n - p;
               q = n div 2 ^ s;
               r = n mod 2 ^ s;
               half = 2 ^ (s - 1)
           in (if r > half \<or> (r = half \<and> odd q) then q + 1 else q) * 2 ^ s)"

definition float32_of_int :: "int \<Rightarrow> int" where
  "float32_of_int x = sgn x * int (round_to_precision 24 (nat \<bar>x\<bar>))"

definition float64_of_int :: "int \<Rightarrow> int" where
  "float64_of_int x = sgn x * int (round_to_precision 53 (nat \<bar>x\<bar>))"

subsection \<open>Metric calculators\<close>

text \<open>
  A confusion matrix is a square two-dimensional int64 array, here the list of its rows;
  \<open>confusion_matrix_wf\<close> says that it is square with entries that are counts.

  The result of a floating-point operation is a number, an infinity or NaN. numpy's
  division does not raise: a zero divisor gives NaN for a zero dividend and an infinity
  otherwise. Where the divisor is not zero the quotient is the exact quotient in
  \<^typ>\<open>real\<close>: the rounding of the division to a float64 is not modelled, the explicit
  cast to float32 is.
\<close>

type_synonym matrix = "int list list"

datatype np_float = Finite real | PosInf | NegInf | NaN

definition np_true_divide :: "real \<Rightarrow> real \<Rightarrow> np_float" where
  "np_true_divide x y =
     (if y = 0 then (if x = 0 then NaN else if 0 < x then PosInf else NegInf)
      else Finite (x / y))"

fun np_add :: "np_float \<Rightarrow> np_float \<Rightarrow> np_float" where
  "np_add (Finite x) (Finite y) = Finite (x + y)"
| "np_add NaN y = NaN"
| "np_add x NaN = NaN"
| "np_add PosInf NegInf = NaN"
| "np_add NegInf PosInf = NaN"
| "np_add PosInf y = PosInf"
| "np_add x PosInf = PosInf"
| "np_add NegInf y = NegInf"
| "np_add x NegInf = NegInf"

text \<open>The number that a finite result holds.\<close>

fun finite_value :: "np_float \<Rightarrow> real" where
  "finite_value (Finite x) = x"
| "finite_value x = 0"

definition confusion_matrix_wf :: "matrix \<Rightarrow> bool" where
  "confusion_matrix_wf m \<longleftrightarrow>
     list_all (\<lambda>row. length row = length m \<and> list_all (\<lambda>x. 0 \<le> x) row) m"

definition np_diag :: "matrix \<Rightarrow> int list" where
  "np_diag m = map (\<lambda>i. m ! i ! i) [0..<length m]"

definition sum_axis1 :: "matrix \<Rightarrow> int list" where
  "sum_axis1 m = map sum_list m"

definition sum_axis0 :: "matrix \<Rightarrow> int list" where
  "sum_axis0 m = map (\<lambda>j. sum_list (map (\<lambda>row. row ! j) m)) [0..<length m]"

text \<open>
  \<^verbatim>\<open>get_iou\<close> (lines 262-281): numpy divides the int64 array \<^verbatim>\<open>intersection\<close> by a
  float32 array, which converts the former to float64.
\<close>

definition get_iou :: "matrix \<Rightarrow> np_float list" where
  "get_iou confusion_matrix =
     (let intersection = np_diag confusion_matrix;
          gt_set = sum_axis1 confusion_matrix;
          predicted_set = sum_axis0 confusion_matrix;
          union = map2 (-) (map2 (+) gt_set predicted_set) intersection;
          eps = 1;
          union = map (\<lambda>u. if u = 0 then eps else u) union
      in map2 (\<lambda>i u. np_true_divide (real_of_int (float64_of_int i))
                          (real_of_int (float32_of_int u)))
           intersection union)"

text \<open>
  \<^verbatim>\<open>get_precision_recall\<close> (lines 284-297): \<^verbatim>\<open>np.max([pred, 1.0])\<close> is a float64, and
  the array of these maxima is cast to float32 before the division.
\<close>

definition get_precision_recall :: "matrix \<Rightarrow> np_float list \<times> np_float list" where
  "get_precision_recall confusion_matrix =
     (let intersection = np_diag confusion_matrix;
          gt_set = sum_axis1 confusion_matrix;
          predicted_set = sum_axis0 confusion_matrix;
          precision = map2
             (\<lambda>i d. np_true_divide (real_of_int (float64_of_int i)) (real_of_int d)) intersection
             (map (\<lambda>pred. float32_of_int (max (float64_of_int pred) 1)) predicted_set);
          recall = map2
             (\<lambda>i d. np_true_divide (real_of_int (float64_of_int i)) (real_of_int d)) intersection
             (map (\<lambda>gt. float32_of_int (max (float64_of_int gt) 1)) gt_set)
      in (precision, recall))"

subsection \<open>The per-batch driver\<close>

text \<open>
  \<^verbatim>\<open>sklearn.metrics.confusion_matrix\<close> with a list of labels (the library of the
  code's time): the two arrays must have the same length and at least one label must occur
  in \<^verbatim>\<open>y_true\<close>, otherwise it raises a ValueError. Each label is mapped to its position
  (the last one, should it occur twice), a sample whose true or predicted value is not a
  label is dropped, and entry \<open>(i, j)\<close> counts the samples with true label \<open>i\<close> and
  predicted label \<open>j\<close>.
\<close>

definition confusion_matrix :: "int list \<Rightarrow> int list \<Rightarrow> int list \<Rightarrow> error + matrix" where
  "confusion_matrix y_true y_pred labels =
     (if length y_true \<noteq> length y_pred then Inl ValueError
      else if list_all (\<lambda>l. l \<notin> set y_true) labels then Inl ValueError
      else let n_labels = length labels;
               label_to_ind = map_of (rev (zip labels [0..<n_labels]))
           in Inr (map (\<lambda>i. map (\<lambda>j.
                     int (length (filter
                        (\<lambda>(t, p). label_to_ind t = Some i \<and> label_to_ind p = Some j)
                        (zip y_true y_pred))))
                   [0..<n_labels]) [0..<n_labels]))"

text \<open>
  The in-place sum \<^verbatim>\<open>a += b\<close> of two arrays of the same shape (shapes that differ are
  reported as a ValueError; numpy's broadcasting of unequal shapes is not modelled).
\<close>

definition same_shape :: "matrix \<Rightarrow> matrix \<Rightarrow> bool" where
  "same_shape a b \<longleftrightarrow> list_all2 (\<lambda>r s. length r = length s) a b"

definition square_matrix :: "nat \<Rightarrow> matrix \<Rightarrow> bool" where
  "square_matrix n m \<longleftrightarrow> length m = n \<and> list_all (\<lambda>row. length row = n) m"

definition iadd :: "matrix \<Rightarrow> matrix \<Rightarrow> error + matrix" where
  "iadd a b = (if same_shape a b then Inr (map2 (map2 (+)) a b) else Inl ValueError)"

text \<open>
  \<^verbatim>\<open>np.mean\<close> of a list: the sum divided by the length; the mean of an empty list is
  NaN, and an infinity or NaN in the sum stays.
\<close>

definition np_mean :: "np_float list \<Rightarrow> np_float" where
  "np_mean xs =
     (if xs = [] then NaN
      else case foldr np_add xs (Finite 0) of
             Finite s \<Rightarrow> Finite (s / real (length xs))
           | other \<Rightarrow> other)"

definition no_parts :: "nat list" where
  "no_parts = [0, 4, 9, 11, 18, 20, 24, 29, 31, 38, 40]"

text \<open>
  \<^verbatim>\<open>validate_batch\<close> (lines 300-394), with \<^verbatim>\<open>writer=None\<close>, in its three steps.
  Lines 324-348: the predictions of both tasks, the overwriting of the background in the
  object-part ground truth, and the two confusion matrices of the batch.
\<close>

definition batch_confusion_matrices ::
  "'a::linorder tensor \<times> int tensor \<Rightarrow> 'b::linorder tensor \<times> int tensor \<Rightarrow> int list \<times> int list
     \<Rightarrow> error + matrix \<times> matrix" where
  "batch_confusion_matrices objpart_dat semantic_dat labels =
     (let (objpart_logits, objpart_anno) = objpart_dat;
          (semantic_logits, semantic_anno) = semantic_dat;
          (objpart_labels, semantic_labels) = labels
      in err_bind (numpyify_logits_and_annotations semantic_logits semantic_anno)
           (\<lambda>(semantic_prediction_np, semantic_anno_np).
         err_bind (outputs_tonp_gt objpart_logits objpart_anno)
           (\<lambda>(objpart_prediction_np, objpart_anno_np).
         let objpart_anno_np = map (\<lambda>a. if a = 0 then - 1 else a) objpart_anno_np
         in err_bind (confusion_matrix semantic_anno_np semantic_prediction_np semantic_labels)
           (\<lambda>current_semantic_confusion_matrix.
         err_bind (confusion_matrix objpart_anno_np objpart_prediction_np objpart_labels)
           (\<lambda>current_objpart_confusion_matrix.
         Inr (current_semantic_confusion_matrix, current_objpart_confusion_matrix))))))"

text \<open>Lines 350-358: the running matrix is initialised or added to.\<close>

definition accumulate :: "matrix option \<Rightarrow> matrix \<Rightarrow> error + matrix" where
  "accumulate overall_confusion_matrix current_confusion_matrix =
     (case overall_confusion_matrix of
        None \<Rightarrow> Inr current_confusion_matrix
      | Some overall \<Rightarrow> iadd overall current_confusion_matrix)"

text \<open>Lines 360-369: the metrics of the batch.\<close>

definition batch_metrics :: "matrix \<Rightarrow> matrix \<Rightarrow> (np_float \<times> np_float) \<times> np_float" where
  "batch_metrics current_semantic_confusion_matrix current_objpart_confusion_matrix =
     (let semantic_IoU = get_iou current_semantic_confusion_matrix;
          semantic_mIoU = np_mean semantic_IoU;
          (objpart_prec, objpart_rec) = get_precision_recall current_objpart_confusion_matrix;
          objpart_mPrec = np_mean
            (map snd (filter (\<lambda>(i, prec). i \<notin> set no_parts) (enumerate 0 objpart_prec)));
          objpart_mRec = np_mean
            (map snd (filter (\<lambda>(i, rec). i \<notin> set no_parts) (enumerate 0 objpart_rec)))
      in ((objpart_mPrec, objpart_mRec), semantic_mIoU))"

definition validate_batch ::
  "'a::linorder tensor \<times> int tensor \<Rightarrow> 'b::linorder tensor \<times> int tensor
     \<Rightarrow> matrix option \<Rightarrow> matrix option \<Rightarrow> int list \<times> int list
     \<Rightarrow> error + (np_float \<times> np_float) \<times> np_float \<times> matrix \<times> matrix" where
  "validate_batch objpart_dat semantic_dat overall_part_confusion_matrix
       overall_semantic_confusion_matrix labels =
     err_bind (batch_confusion_matrices objpart_dat semantic_dat labels)
       (\<lambda>(current_semantic_confusion_matrix, current_objpart_confusion_matrix).
     err_bind (accumulate overall_semantic_confusion_matrix current_semantic_confusion_matrix)
       (\<lambda>overall_semantic_confusion_matrix.
     err_bind (accumulate overall_part_confusion_matrix current_objpart_confusion_matrix)
       (\<lambda>overall_part_confusion_matrix.
     let (objpart_metrics, semantic_mIoU) =
           batch_metrics current_semantic_confusion_matrix current_objpart_confusion_matrix
     in Inr (objpart_metrics, semantic_mIoU, overall_part_confusion_matrix,
             overall_semantic_confusion_matrix))))"

text \<open>
  Modelled from the spec: the loop of the evaluation driver over the batches of a pass
  (section 4.6 of the specification; the caller of \<^verbatim>\<open>validate_batch\<close> is not part of
  \<^verbatim>\<open>evaluation.py\<close>). A pass starts with no running matrix and hands the matrices that
  \<^verbatim>\<open>validate_batch\<close> returns to the next batch.
\<close>

fun evaluation_pass ::
  "int list \<times> int list \<Rightarrow> (('a::linorder tensor \<times> int tensor) \<times> ('b::linorder tensor \<times> int tensor)) list
     \<Rightarrow> matrix option \<times> matrix option \<Rightarrow> error + matrix option \<times> matrix option" where
  "evaluation_pass labels [] running = Inr running"
| "evaluation_pass labels (batch # batches) running =
     err_bind (validate_batch (fst batch) (snd batch) (fst running) (snd running) labels)
       (\<lambda>(objpart_metrics, semantic_mIoU, part_matrix, semantic_matrix).
          evaluation_pass labels batches (Some part_matrix, Some semantic_matrix))"

text \<open>Two sample batches, with the same object-part data and different semantic annotations.\<close>

definition example_batches ::
  "((int tensor \<times> int tensor) \<times> (int tensor \<times> int tensor)) list" where
  "example_batches =
     [((example_objpart_logits, example_anno), (example_logits, example_semantic_anno)),
      ((example_objpart_logits, example_anno), (example_logits, example_anno))]"

section \<open>Properties\<close>

subsection \<open>The pairing of object and part channels\<close>

text \<open>
  C4. For a label \<open>L\<close> with \<open>1 \<le> L \<le> 2 * N\<close>, \<^verbatim>\<open>to_pair\<close> returns
  \<open>[L - N, L]\<close> with task bit 1 when \<open>L > N\<close> and \<open>[L, L + N]\<close> with task bit 0
  otherwise; both copies of the function agree on the pair. For an object label the part
  index \<open>L + N\<close> of its pair is mapped back to the same pair, with \<open>L\<close> as the object
  index; and \<open>to_pair(25, 20) = (1, [5, 25])\<close>.
\<close>

theorem to_pair_pairs:
  assumes "1 \<le> L" and "L \<le> 2 * N"
  shows "compress_to_pair L N = (if L > N then (1, [L - N, L]) else (0, [L, L + N]))
    \<and> to_pair L N = snd (compress_to_pair L N)
    \<and> (L \<le> N \<longrightarrow>
          snd (compress_to_pair L N) ! 1 = L + N
        \<and> compress_to_pair (L + N) N = (1, [L, L + N])
        \<and> to_pair (L + N) N ! 0 = L)
    \<and> compress_to_pair 25 20 = (1, [5, 25])"
  using assms by (simp add: compress_to_pair_def to_pair_def)

theorem to_pair_pairs_witness:
  "(1::int) \<le> 7 \<and> (7::int) \<le> 2 * 20 \<and> (7::int) \<le> 20
   \<and> compress_to_pair 7 20 = (0, [7, 27]) \<and> to_pair 7 20 = [7, 27]
   \<and> snd (compress_to_pair 7 20) ! 1 = 27
   \<and> compress_to_pair 27 20 = (1, [7, 27]) \<and> to_pair 27 20 ! 0 = 7"
  using to_pair_pairs [of 7 20] by simp

subsection \<open>Integers that the float conversions leave unchanged\<close>

lemma bit_length_le: "n < 2 ^ p \<Longrightarrow> bit_length n \<le> p"
proof (induction p arbitrary: n)
  case 0
  then show ?case by (simp add: bit_length.simps)
next
  case (Suc p)
  show ?case
  proof (cases "n = 0")
    case True
    then show ?thesis by (simp add: bit_length.simps)
  next
    case False
    from Suc.prems have "n div 2 < 2 ^ p" by simp
    then have "bit_length (n div 2) \<le> p" by (rule Suc.IH)
    with False show ?thesis by (subst bit_length.simps) simp
  qed
qed

lemma round_to_precision_exact: "n < 2 ^ p \<Longrightarrow> round_to_precision p n = n"
  by (simp add: round_to_precision_def bit_length_le)

lemma round_to_precision_24_tie: "round_to_precision 24 16777217 = 16777216" by (simp add: round_to_precision_def bit_length.simps)
lemma float32_of_int_exact: "\<bar>x\<bar> \<le> 2 ^ 24 \<Longrightarrow> float32_of_int x = x"
proof -
  assume a: "\<bar>x\<bar> \<le> 2 ^ 24"
  have "round_to_precision 24 (nat \<bar>x\<bar>) = nat \<bar>x\<bar>"
  proof (cases "nat \<bar>x\<bar> < 2 ^ 24")
    case True
    then show ?thesis by (rule round_to_precision_exact)
  next
    case False
    with a have "nat \<bar>x\<bar> = 16777216" by simp
    then show ?thesis by (simp add: round_to_precision_def bit_length.simps)
  qed
  then show ?thesis
    by (simp add: float32_of_int_def sgn_if)
qed

lemma float64_of_int_exact: "\<bar>x\<bar> < 2 ^ 53 \<Longrightarrow> float64_of_int x = x"
proof -
  assume a: "\<bar>x\<bar> < 2 ^ 53"
  then have "nat \<bar>x\<bar> < 2 ^ 53" by simp
  then have "round_to_precision 53 (nat \<bar>x\<bar>) = nat \<bar>x\<bar>"
    by (rule round_to_precision_exact)
  then show ?thesis
    by (simp add: float64_of_int_def sgn_if)
qed


text \<open>A positive integer is never rounded to zero.\<close>

lemma bit_length_lower: "0 < n \<Longrightarrow> 2 ^ (bit_length n - 1) \<le> n"
proof (induction n rule: bit_length.induct)
  case (1 n)
  show ?case
  proof (cases "n div 2 = 0")
    case True
    with "1.prems" have "bit_length n = 1"
      by (simp add: bit_length.simps [of n] bit_length.simps [of 0])
    with "1.prems" show ?thesis by simp
  next
    case False
    with "1.prems" "1.IH" have ih: "2 ^ (bit_length (n div 2) - 1) \<le> n div 2" by simp
    from False have "0 < bit_length (n div 2)"
      by (simp add: bit_length.simps [of "n div 2"])
    then have "(2::nat) ^ bit_length (n div 2) = 2 * 2 ^ (bit_length (n div 2) - 1)"
      by (cases "bit_length (n div 2)") simp_all
    also have "\<dots> \<le> 2 * (n div 2)" using ih by simp
    also have "\<dots> \<le> n" by simp
    finally show ?thesis
      using "1.prems" by (simp add: bit_length.simps [of n])
  qed
qed

lemma round_to_precision_pos:
  assumes "0 < p" and "0 < n"
  shows "0 < round_to_precision p n"
proof (cases "bit_length n \<le> p")
  case True
  with assms show ?thesis by (simp add: round_to_precision_def)
next
  case False
  let ?s = "bit_length n - p"
  from False assms(1) have "?s \<le> bit_length n - 1" by simp
  then have "(2::nat) ^ ?s \<le> 2 ^ (bit_length n - 1)"
    by (intro power_increasing) simp_all
  also have "\<dots> \<le> n" using assms(2) by (rule bit_length_lower)
  finally have "0 < n div 2 ^ ?s"
    by (simp add: div_greater_zero_iff)
  with False show ?thesis
    by (simp add: round_to_precision_def Let_def)
qed

lemma float32_of_int_pos: "0 < x \<Longrightarrow> 0 < float32_of_int x"
  using round_to_precision_pos [of 24 "nat \<bar>x\<bar>"] by (simp add: float32_of_int_def sgn_if)

lemma float64_of_int_nonneg: "0 \<le> x \<Longrightarrow> 0 \<le> float64_of_int x"
  by (simp add: float64_of_int_def sgn_if)

subsection \<open>Intersection over union, precision and recall\<close>

lemma nth_le_sum_list_int:
  fixes xs :: "int list"
  shows "list_all (\<lambda>x. 0 \<le> x) xs \<Longrightarrow> i < length xs \<Longrightarrow> 0 \<le> xs ! i \<and> xs ! i \<le> sum_list xs"
proof (induction xs arbitrary: i)
  case Nil
  then show ?case by simp
next
  case (Cons x xs)
  have nn: "0 \<le> sum_list xs"
    using Cons.prems(1) by (auto intro: sum_list_nonneg simp: list_all_iff)
  show ?case
  proof (cases i)
    case 0
    with Cons.prems nn show ?thesis by simp
  next
    case (Suc j)
    with Cons.prems have "0 \<le> xs ! j \<and> xs ! j \<le> sum_list xs"
      by (intro Cons.IH) simp_all
    with Suc Cons.prems show ?thesis by simp
  qed
qed

lemma confusion_matrix_wf_row:
  assumes "confusion_matrix_wf M" and "i < length M"
  shows "length (M ! i) = length M" and "list_all (\<lambda>x. 0 \<le> x) (M ! i)"
  using assms by (simp_all add: confusion_matrix_wf_def list_all_length)

lemma diag_le_row_sum:
  assumes "confusion_matrix_wf M" and "i < length M"
  shows "0 \<le> np_diag M ! i" and "np_diag M ! i \<le> sum_axis1 M ! i"
proof -
  have "0 \<le> M ! i ! i \<and> M ! i ! i \<le> sum_list (M ! i)"
    using confusion_matrix_wf_row [OF assms] assms(2)
    by (intro nth_le_sum_list_int) simp_all
  then show "0 \<le> np_diag M ! i" and "np_diag M ! i \<le> sum_axis1 M ! i"
    using assms(2) by (simp_all add: np_diag_def sum_axis1_def)
qed

lemma diag_le_col_sum:
  assumes "confusion_matrix_wf M" and "i < length M"
  shows "np_diag M ! i \<le> sum_axis0 M ! i"
proof -
  let ?col = "map (\<lambda>row. row ! i) M"
  have "list_all (\<lambda>x. 0 \<le> x) ?col"
    unfolding list_all_length
  proof (intro allI impI)
    fix k assume "k < length ?col"
    then have k: "k < length M" by simp
    from confusion_matrix_wf_row [OF assms(1) k] assms(2)
    have "0 \<le> M ! k ! i" by (simp add: list_all_length)
    with k show "0 \<le> ?col ! k" by simp
  qed
  then have "?col ! i \<le> sum_list ?col"
    using assms(2) by (intro nth_le_sum_list_int [THEN conjunct2]) simp_all
  then show ?thesis
    using assms(2) by (simp add: np_diag_def sum_axis0_def)
qed

lemma length_get_iou: "length (get_iou M) = length M"
  by (simp add: get_iou_def np_diag_def sum_axis1_def sum_axis0_def Let_def)

lemma get_iou_nth:
  assumes "i < length M"
  shows "get_iou M ! i =
     np_true_divide (real_of_int (float64_of_int (np_diag M ! i)))
       (real_of_int (float32_of_int
          (let u = sum_axis1 M ! i + sum_axis0 M ! i - np_diag M ! i in if u = 0 then 1 else u)))"
  using assms by (simp add: get_iou_def np_diag_def sum_axis1_def sum_axis0_def Let_def)

lemma length_get_precision_recall:
  "length (fst (get_precision_recall M)) = length M"
  "length (snd (get_precision_recall M)) = length M"
  by (simp_all add: get_precision_recall_def np_diag_def sum_axis1_def sum_axis0_def Let_def)

lemma get_precision_nth:
  assumes "i < length M"
  shows "fst (get_precision_recall M) ! i =
     np_true_divide (real_of_int (float64_of_int (np_diag M ! i)))
       (real_of_int (float32_of_int (max (float64_of_int (sum_axis0 M ! i)) 1)))"
  using assms by (simp add: get_precision_recall_def np_diag_def sum_axis1_def sum_axis0_def Let_def)

lemma get_recall_nth:
  assumes "i < length M"
  shows "snd (get_precision_recall M) ! i =
     np_true_divide (real_of_int (float64_of_int (np_diag M ! i)))
       (real_of_int (float32_of_int (max (float64_of_int (sum_axis1 M ! i)) 1)))"
  using assms by (simp add: get_precision_recall_def np_diag_def sum_axis1_def sum_axis0_def Let_def)

lemma ratio_unit_interval:
  fixes d u :: int
  assumes "0 \<le> d" and "d \<le> u" and "0 < u"
  shows "0 \<le> real_of_int d / real_of_int u" and "real_of_int d / real_of_int u \<le> 1"
  using assms by simp_all

text \<open>
  Without the replacement of a zero union the division of a class that nobody has and
  nobody predicts would be \<open>0 / 0\<close>, which is NaN.
\<close>

lemma np_true_divide_zero_zero: "np_true_divide 0 0 = NaN"
  by (simp add: np_true_divide_def)

lemma np_true_divide_pos:
  assumes "0 < y"
  shows "np_true_divide x y = Finite (x / y)"
  using assms by (simp add: np_true_divide_def)

text \<open>
  C2, with the float32 cast of the code. For a confusion matrix \<open>M\<close> and a class
  \<open>i\<close>, \<^verbatim>\<open>get_iou\<close> returns one value per class. The divisor, the float32 cast of the
  union \<open>row_sum + col_sum - diagonal\<close> with a zero union replaced by 1, is never zero,
  and the value is never NaN or infinite: it is the non-negative quotient of the diagonal
  entry and this divisor. Where the union is at most \<open>2 ^ 24\<close> the cast changes nothing:
  the value is \<open>diagonal / union\<close> and lies in \<open>[0, 1]\<close>. A class with no ground truth
  and no prediction gets exactly 0, and \<open>[[5, 1], [2, 3]]\<close> gives \<open>[0.625, 0.5]\<close>.
\<close>

theorem get_iou_exact_counts:
  assumes "confusion_matrix_wf M" and "i < length M"
  shows "length (get_iou M) = length M
    \<and> (let d = np_diag M ! i;
            u = sum_axis1 M ! i + sum_axis0 M ! i - d;
            u' = (if u = 0 then 1 else u)
        in 0 < float32_of_int u'
         \<and> get_iou M ! i =
             Finite (real_of_int (float64_of_int d) / real_of_int (float32_of_int u'))
         \<and> 0 \<le> real_of_int (float64_of_int d) / real_of_int (float32_of_int u')
         \<and> (u \<le> 2 ^ 24 \<longrightarrow>
               get_iou M ! i = Finite (real_of_int d / real_of_int u')
             \<and> 0 \<le> real_of_int d / real_of_int u' \<and> real_of_int d / real_of_int u' \<le> 1)
         \<and> (sum_axis1 M ! i = 0 \<and> sum_axis0 M ! i = 0 \<longrightarrow> get_iou M ! i = Finite 0))
    \<and> get_iou [[5, 1], [2, 3]] = [Finite 0.625, Finite 0.5]"
proof -
  define d where "d = np_diag M ! i"
  define u where "u = sum_axis1 M ! i + sum_axis0 M ! i - d"
  define u' where "u' = (if u = 0 then 1 else u)"
  have d0: "0 \<le> d" and dr: "d \<le> sum_axis1 M ! i" and dc: "d \<le> sum_axis0 M ! i"
    using diag_le_row_sum [OF assms] diag_le_col_sum [OF assms] by (simp_all add: d_def)
  have du: "d \<le> u'" and u'pos: "0 < u'" and uu': "u' \<le> max u 1"
    using d0 dr dc by (auto simp: u_def u'_def)
  have divisor: "0 < float32_of_int u'"
    using u'pos by (rule float32_of_int_pos)
  have "get_iou M ! i = np_true_divide (real_of_int (float64_of_int d))
      (real_of_int (float32_of_int u'))"
    using get_iou_nth [OF assms(2)] by (simp add: d_def u_def u'_def Let_def)
  with divisor
  have general: "get_iou M ! i =
      Finite (real_of_int (float64_of_int d) / real_of_int (float32_of_int u'))"
    by (simp add: np_true_divide_pos)
  have nonneg: "0 \<le> real_of_int (float64_of_int d) / real_of_int (float32_of_int u')"
    using float64_of_int_nonneg [OF d0] divisor by simp
  have cast: "real_of_int (float64_of_int d) / real_of_int (float32_of_int u')
      = real_of_int d / real_of_int u'" if "u \<le> 2 ^ 24"
  proof -
    from that uu' u'pos have "\<bar>u'\<bar> \<le> 2 ^ 24" by simp
    moreover from this du d0 have "\<bar>d\<bar> < 2 ^ 53" by simp
    ultimately show ?thesis
      by (simp add: float32_of_int_exact float64_of_int_exact)
  qed
  have exact: "get_iou M ! i = Finite (real_of_int d / real_of_int u')" if "u \<le> 2 ^ 24"
    using general cast [OF that] by simp
  have zero: "get_iou M ! i = Finite 0" if "sum_axis1 M ! i = 0" "sum_axis0 M ! i = 0"
  proof -
    from that d0 dr have "d = 0" by simp
    then show ?thesis using general by (simp add: float64_of_int_def)
  qed
  have example: "get_iou [[5, 1], [2, 3]] = [Finite 0.625, Finite 0.5]"
    by (simp add: get_iou_def np_diag_def sum_axis1_def sum_axis0_def np_true_divide_def
        float32_of_int_exact float64_of_int_exact upt_rec)
  have main: "0 < float32_of_int u'
         \<and> get_iou M ! i =
             Finite (real_of_int (float64_of_int d) / real_of_int (float32_of_int u'))
         \<and> 0 \<le> real_of_int (float64_of_int d) / real_of_int (float32_of_int u')
         \<and> (u \<le> 2 ^ 24 \<longrightarrow>
               get_iou M ! i = Finite (real_of_int d / real_of_int u')
             \<and> 0 \<le> real_of_int d / real_of_int u' \<and> real_of_int d / real_of_int u' \<le> 1)
         \<and> (sum_axis1 M ! i = 0 \<and> sum_axis0 M ! i = 0 \<longrightarrow> get_iou M ! i = Finite 0)"
    using divisor general nonneg exact zero ratio_unit_interval [OF d0 du u'pos] by blast
  from main example length_get_iou [of M] show ?thesis
    unfolding Let_def d_def u_def u'_def by blast
qed

theorem get_iou_exact_counts_witness:
  "confusion_matrix_wf [[5, 1], [2, 3]] \<and> (1::nat) < length [[5, 1], [2, 3::int]]
   \<and> sum_axis1 [[5, 1], [2, 3]] ! 1 + sum_axis0 [[5, 1], [2, 3]] ! 1 - np_diag [[5, 1], [2, 3]] ! 1
       \<le> 2 ^ 24
   \<and> get_iou [[5, 1], [2, 3]] ! 1 = Finite (3 / 6)
   \<and> confusion_matrix_wf [[0, 0], [0, 3]] \<and> (0::nat) < length [[0, 0], [0, 3::int]]
   \<and> sum_axis1 [[0, 0], [0, 3]] ! 0 = 0 \<and> sum_axis0 [[0, 0], [0, 3]] ! 0 = 0
   \<and> get_iou [[0, 0], [0, 3]] ! 0 = Finite 0
   \<and> np_true_divide (real_of_int (float64_of_int 0)) (real_of_int (float32_of_int 0)) = NaN"
  using get_iou_exact_counts [of "[[5, 1], [2, 3]]" 1] get_iou_exact_counts [of "[[0, 0], [0, 3]]" 0]
  by (simp add: confusion_matrix_wf_def np_diag_def sum_axis1_def sum_axis0_def Let_def upt_rec
      float32_of_int_exact float64_of_int_exact np_true_divide_def)

text \<open>
  The range \<open>[0, 1]\<close> does not hold for every confusion matrix: a single class with
  \<open>2 ^ 24 + 1\<close> correctly predicted pixels has the union \<open>2 ^ 24 + 1\<close>, which the
  cast to float32 rounds down to \<open>2 ^ 24\<close>, while the intersection stays exact.
\<close>

theorem get_iou_range_counterexample:
  "confusion_matrix_wf [[16777217]]
   \<and> get_iou [[16777217]] ! 0 = Finite (16777217 / 16777216)
   \<and> \<not> (16777217 / 16777216 :: real) \<le> 1"
  by (simp add: confusion_matrix_wf_def get_iou_def np_diag_def sum_axis1_def sum_axis0_def
      np_true_divide_def float64_of_int_exact float32_of_int_def round_to_precision_24_tie)

lemma float_denominator_exact:
  assumes "0 \<le> c" and "c \<le> 2 ^ 24"
  shows "float32_of_int (max (float64_of_int c) 1) = max c 1"
proof -
  from assms have "\<bar>c\<bar> < 2 ^ 53" by simp
  then have "float64_of_int c = c" by (rule float64_of_int_exact)
  moreover from assms have "\<bar>max c 1\<bar> \<le> 2 ^ 24" by simp
  ultimately show ?thesis by (simp add: float32_of_int_exact)
qed

lemma float_denominator_pos: "0 < float32_of_int (max (float64_of_int c) 1)"
  by (rule float32_of_int_pos) simp

text \<open>
  C3, with the float32 cast of the code. \<^verbatim>\<open>get_precision_recall\<close> returns one
  precision and one recall per class. The divisors, the float32 casts of
  \<open>max(column_sum, 1)\<close> and of \<open>max(row_sum, 1)\<close>, are never zero, and no value is NaN or
  infinite: each is the non-negative quotient of the diagonal entry and its divisor.
  Where the column sum (the row sum) of a class is at most \<open>2 ^ 24\<close>, its precision is
  \<open>diagonal / max(column_sum, 1)\<close> (its recall \<open>diagonal / max(row_sum, 1)\<close>) and lies
  in \<open>[0, 1]\<close>. A class with no predicted and no ground-truth pixel has precision and
  recall 0, and \<open>[[5, 1], [2, 3]]\<close> gives the precisions \<open>[5/7, 3/4]\<close> and the recalls
  \<open>[5/6, 3/5]\<close>.
\<close>

theorem get_precision_recall_exact_counts:
  assumes "confusion_matrix_wf M" and "i < length M"
  shows "length (fst (get_precision_recall M)) = length M
    \<and> length (snd (get_precision_recall M)) = length M
    \<and> (let d = np_diag M ! i; c = sum_axis0 M ! i; r = sum_axis1 M ! i;
            precision = fst (get_precision_recall M) ! i;
            recall = snd (get_precision_recall M) ! i;
            c' = float32_of_int (max (float64_of_int c) 1);
            r' = float32_of_int (max (float64_of_int r) 1)
        in 0 < c' \<and> 0 < r'
         \<and> precision = Finite (real_of_int (float64_of_int d) / real_of_int c')
         \<and> recall = Finite (real_of_int (float64_of_int d) / real_of_int r')
         \<and> 0 \<le> real_of_int (float64_of_int d) / real_of_int c'
         \<and> 0 \<le> real_of_int (float64_of_int d) / real_of_int r'
         \<and> (c \<le> 2 ^ 24 \<longrightarrow>
              precision = Finite (real_of_int d / real_of_int (max c 1))
            \<and> 0 \<le> real_of_int d / real_of_int (max c 1)
            \<and> real_of_int d / real_of_int (max c 1) \<le> 1)
         \<and> (r \<le> 2 ^ 24 \<longrightarrow>
              recall = Finite (real_of_int d / real_of_int (max r 1))
            \<and> 0 \<le> real_of_int d / real_of_int (max r 1)
            \<and> real_of_int d / real_of_int (max r 1) \<le> 1)
         \<and> (c = 0 \<and> r = 0 \<longrightarrow> precision = Finite 0 \<and> recall = Finite 0))
    \<and> get_precision_recall [[5, 1], [2, 3]]
        = ([Finite (5 / 7), Finite (3 / 4)], [Finite (5 / 6), Finite (3 / 5)])"
proof -
  define d where "d = np_diag M ! i"
  define c where "c = sum_axis0 M ! i"
  define r where "r = sum_axis1 M ! i"
  define precision where "precision = fst (get_precision_recall M) ! i"
  define recall where "recall = snd (get_precision_recall M) ! i"
  define c' where "c' = float32_of_int (max (float64_of_int c) 1)"
  define r' where "r' = float32_of_int (max (float64_of_int r) 1)"
  have d0: "0 \<le> d" and dr: "d \<le> r" and dc: "d \<le> c"
    using diag_le_row_sum [OF assms] diag_le_col_sum [OF assms] by (simp_all add: d_def c_def r_def)
  have pos: "0 < c'" "0 < r'"
    by (simp_all add: c'_def r'_def float_denominator_pos)
  have prec: "precision = Finite (real_of_int (float64_of_int d) / real_of_int c')"
    using get_precision_nth [OF assms(2)] pos(1)
    by (simp add: precision_def d_def c_def c'_def np_true_divide_pos)
  have rec: "recall = Finite (real_of_int (float64_of_int d) / real_of_int r')"
    using get_recall_nth [OF assms(2)] pos(2)
    by (simp add: recall_def d_def r_def r'_def np_true_divide_pos)
  have nonneg: "0 \<le> real_of_int (float64_of_int d) / real_of_int c'"
    "0 \<le> real_of_int (float64_of_int d) / real_of_int r'"
    using float64_of_int_nonneg [OF d0] pos by simp_all
  have p_exact: "precision = Finite (real_of_int d / real_of_int (max c 1))" if "c \<le> 2 ^ 24"
  proof -
    from that d0 dc have c0: "0 \<le> c" and small: "\<bar>d\<bar> < 2 ^ 53" by simp_all
    show ?thesis
      unfolding prec c'_def float_denominator_exact [OF c0 that] float64_of_int_exact [OF small] ..
  qed
  have r_exact: "recall = Finite (real_of_int d / real_of_int (max r 1))" if "r \<le> 2 ^ 24"
  proof -
    from that d0 dr have r0: "0 \<le> r" and small: "\<bar>d\<bar> < 2 ^ 53" by simp_all
    show ?thesis
      unfolding rec r'_def float_denominator_exact [OF r0 that] float64_of_int_exact [OF small] ..
  qed
  have p_bounds: "0 \<le> real_of_int d / real_of_int (max c 1)
      \<and> real_of_int d / real_of_int (max c 1) \<le> 1"
  proof -
    have "d \<le> max c 1" and "0 < max c 1" using dc by simp_all
    from ratio_unit_interval [OF d0 this] show ?thesis by simp
  qed
  have r_bounds: "0 \<le> real_of_int d / real_of_int (max r 1)
      \<and> real_of_int d / real_of_int (max r 1) \<le> 1"
  proof -
    have "d \<le> max r 1" and "0 < max r 1" using dr by simp_all
    from ratio_unit_interval [OF d0 this] show ?thesis by simp
  qed
  have zero: "precision = Finite 0 \<and> recall = Finite 0" if "c = 0" "r = 0"
  proof -
    from that d0 dr have "d = 0" by simp
    then show ?thesis using prec rec by (simp add: float64_of_int_def)
  qed
  have example: "get_precision_recall [[5, 1], [2, 3]]
      = ([Finite (5 / 7), Finite (3 / 4)], [Finite (5 / 6), Finite (3 / 5)])"
    by (simp add: get_precision_recall_def np_diag_def sum_axis1_def sum_axis0_def
        np_true_divide_def float32_of_int_exact float64_of_int_exact upt_rec)
  have main: "0 < c' \<and> 0 < r'
         \<and> precision = Finite (real_of_int (float64_of_int d) / real_of_int c')
         \<and> recall = Finite (real_of_int (float64_of_int d) / real_of_int r')
         \<and> 0 \<le> real_of_int (float64_of_int d) / real_of_int c'
         \<and> 0 \<le> real_of_int (float64_of_int d) / real_of_int r'
         \<and> (c \<le> 2 ^ 24 \<longrightarrow>
              precision = Finite (real_of_int d / real_of_int (max c 1))
            \<and> 0 \<le> real_of_int d / real_of_int (max c 1)
            \<and> real_of_int d / real_of_int (max c 1) \<le> 1)
         \<and> (r \<le> 2 ^ 24 \<longrightarrow>
              recall = Finite (real_of_int d / real_of_int (max r 1))
            \<and> 0 \<le> real_of_int d / real_of_int (max r 1)
            \<and> real_of_int d / real_of_int (max r 1) \<le> 1)
         \<and> (c = 0 \<and> r = 0 \<longrightarrow> precision = Finite 0 \<and> recall = Finite 0)"
    using pos prec rec nonneg p_exact p_bounds r_exact r_bounds zero by blast
  from main example length_get_precision_recall [of M] show ?thesis
    unfolding Let_def d_def c_def r_def precision_def recall_def c'_def r'_def by blast
qed

theorem get_precision_recall_exact_counts_witness:
  "confusion_matrix_wf [[5, 1], [2, 3]] \<and> (0::nat) < length [[5, 1], [2, 3::int]]
   \<and> sum_axis0 [[5, 1], [2, 3]] ! 0 \<le> 2 ^ 24 \<and> sum_axis1 [[5, 1], [2, 3]] ! 0 \<le> 2 ^ 24
   \<and> fst (get_precision_recall [[5, 1], [2, 3]]) ! 0 = Finite (5 / 7)
   \<and> snd (get_precision_recall [[5, 1], [2, 3]]) ! 0 = Finite (5 / 6)
   \<and> confusion_matrix_wf [[0, 0], [0, 3]] \<and> (0::nat) < length [[0, 0], [0, 3::int]]
   \<and> sum_axis0 [[0, 0], [0, 3]] ! 0 = 0 \<and> sum_axis1 [[0, 0], [0, 3]] ! 0 = 0
   \<and> fst (get_precision_recall [[0, 0], [0, 3]]) ! 0 = Finite 0
   \<and> snd (get_precision_recall [[0, 0], [0, 3]]) ! 0 = Finite 0
   \<and> np_true_divide (real_of_int (float64_of_int 0))
        (real_of_int (float32_of_int (float64_of_int 0))) = NaN"
  using get_precision_recall_exact_counts [of "[[5, 1], [2, 3]]" 0]
    get_precision_recall_exact_counts [of "[[0, 0], [0, 3]]" 0]
  by (simp add: confusion_matrix_wf_def np_diag_def sum_axis1_def sum_axis0_def Let_def upt_rec
      float32_of_int_exact float64_of_int_exact np_true_divide_def)

text \<open>
  Beyond \<open>2 ^ 24\<close> the float32 cast of the divisor can round it below the
  intersection, and precision and recall exceed 1.
\<close>

theorem get_precision_recall_range_counterexample:
  "confusion_matrix_wf [[16777217]]
   \<and> fst (get_precision_recall [[16777217]]) ! 0 = Finite (16777217 / 16777216)
   \<and> snd (get_precision_recall [[16777217]]) ! 0 = Finite (16777217 / 16777216)
   \<and> \<not> (16777217 / 16777216 :: real) \<le> 1"
  by (simp add: confusion_matrix_wf_def get_precision_recall_def np_diag_def sum_axis1_def
      sum_axis0_def np_true_divide_def float64_of_int_exact float32_of_int_def
      round_to_precision_24_tie)

subsection \<open>Row-major enumeration of indices\<close>

lemma length_all_indices: "length (all_indices shp) = prod_list shp"
  by (induction shp) (simp_all add: length_concat comp_def sum_list_triv)

lemma set_all_indices: "idx \<in> set (all_indices shp) \<longleftrightarrow> list_all2 (<) idx shp"
proof (induction shp arbitrary: idx)
  case Nil
  then show ?case by simp
next
  case (Cons n ns)
  show ?case
  proof (cases idx)
    case Nil
    then show ?thesis by auto
  next
    case (Cons i js)
    have "i # js \<in> set (all_indices (n # ns)) \<longleftrightarrow> i < n \<and> js \<in> set (all_indices ns)"
      by auto
    then show ?thesis by (simp add: Cons Cons.IH)
  qed
qed

lemma nth_concat_uniform:
  assumes "\<forall>xs \<in> set xss. length xs = m" and "i < length xss" and "r < m"
  shows "concat xss ! (i * m + r) = xss ! i ! r"
  using assms
proof (induction xss arbitrary: i)
  case Nil
  then show ?case by simp
next
  case (Cons xs xss)
  show ?case
  proof (cases i)
    case 0
    with Cons.prems show ?thesis by (simp add: nth_append)
  next
    case (Suc j)
    with Cons.prems have "concat xss ! (j * m + r) = xss ! j ! r"
      by (intro Cons.IH) simp_all
    with Suc Cons.prems show ?thesis by (simp add: nth_append)
  qed
qed

lemma offset_Cons: "offset (s # strd) (i # idx) = i * s + offset strd idx"
  by (simp add: offset_def)

lemma offset_Nil: "offset [] [] = 0"
  by (simp add: offset_def)

lemma all_indices_nth_offset:
  "list_all2 (<) idx shp \<Longrightarrow>
     offset (c_strides shp) idx < prod_list shp
       \<and> all_indices shp ! offset (c_strides shp) idx = idx"
proof (induction shp arbitrary: idx)
  case Nil
  then have "idx = []" by simp
  then show ?case by (simp add: offset_Nil)
next
  case (Cons n ns)
  from Cons.prems obtain i js where idx: "idx = i # js" and i: "i < n" and rest: "list_all2 (<) js ns"
    by (cases idx) auto
  let ?m = "prod_list ns"
  let ?r = "offset (c_strides ns) js"
  from Cons.IH [OF rest] have r: "?r < ?m" and nth: "all_indices ns ! ?r = js" by simp_all
  have "i * ?m + ?r < Suc i * ?m" using r by simp
  also have "\<dots> \<le> n * ?m" using i by (intro mult_le_mono1) simp
  finally have bound: "i * ?m + ?r < n * ?m" .
  let ?blocks = "map (\<lambda>i. map ((#) i) (all_indices ns)) [0..<n]"
  have "concat ?blocks ! (i * ?m + ?r) = ?blocks ! i ! ?r"
    using i r by (intro nth_concat_uniform) (auto simp: length_all_indices)
  also have "\<dots> = i # js"
    using i r nth by (simp add: length_all_indices)
  finally show ?case
    using bound by (simp add: idx offset_Cons)
qed

lemma offset_c_strides_inj:
  assumes "list_all2 (<) idx shp" and "list_all2 (<) idx' shp"
    and "offset (c_strides shp) idx = offset (c_strides shp) idx'"
  shows "idx = idx'"
  using all_indices_nth_offset [OF assms(1)] all_indices_nth_offset [OF assms(2)] assms(3)
  by metis

lemma offset_all_indices_nth:
  "k < prod_list shp \<Longrightarrow> offset (c_strides shp) (all_indices shp ! k) = k"
proof (induction shp arbitrary: k)
  case Nil
  then show ?case by (simp add: offset_Nil)
next
  case (Cons n ns)
  let ?m = "prod_list ns"
  from Cons.prems have m: "0 < ?m" by (cases "?m = 0") simp_all
  define i where "i = k div ?m"
  define r where "r = k mod ?m"
  have k: "k = i * ?m + r" by (simp add: i_def r_def)
  have r: "r < ?m" using m by (simp add: r_def)
  have i: "i < n" using Cons.prems m by (simp add: i_def less_mult_imp_div_less)
  let ?blocks = "map (\<lambda>i. map ((#) i) (all_indices ns)) [0..<n]"
  have "concat ?blocks ! (i * ?m + r) = ?blocks ! i ! r"
    using i r by (intro nth_concat_uniform) (auto simp: length_all_indices)
  also have "\<dots> = i # all_indices ns ! r"
    using i r by (simp add: length_all_indices)
  finally show ?case
    using Cons.IH [OF r] by (simp add: k offset_Cons)
qed

lemma distinct_all_indices: "distinct (all_indices shp)"
  unfolding distinct_conv_nth
proof (intro allI impI)
  fix i j
  assume "i < length (all_indices shp)" "j < length (all_indices shp)" "i \<noteq> j"
  then show "all_indices shp ! i \<noteq> all_indices shp ! j"
    using offset_all_indices_nth [of i shp] offset_all_indices_nth [of j shp]
    by (auto simp: length_all_indices)
qed


subsection \<open>Alignment of flattened logits and annotations\<close>

lemma permute_0231:
  assumes "strides t = [s0, s1, s2, s3]" and "shape t = [B, C, H, W]"
  shows "permute t [0, 2, 3, 1] =
     Inr (t\<lparr>shape := [B, H, W, C], strides := [s0, s2, s3, s1]\<rparr>)"
proof -
  have "sort [0, 2, 3, 1::nat] = [0..<length [B, C, H, W]]"
    by (simp add: numeral_2_eq_2 numeral_3_eq_3)
  then show ?thesis
    unfolding permute_def assms by simp
qed

lemma view_rows:
  assumes "is_contiguous t" and "0 < C" and "numel t = n * C"
  shows "view t [- 1, int C] =
     Inr \<lparr>shape = [n, C], strides = [C, 1], storage = storage t\<rparr>"
  using assms by (simp add: view_def Let_def)

lemma view_flat:
  assumes "is_contiguous t"
  shows "view t [- 1] = Inr \<lparr>shape = [numel t], strides = [1], storage = storage t\<rparr>"
  using assms by (simp add: view_def Let_def)

lemma row_major_offset4:
  "offset (c_strides [B, H, W, C]) [b, h, w, c] = ((b * H + h) * W + w) * C + c"
  by (simp add: offset_def algebra_simps)

lemma row_major_offset3:
  "offset (c_strides [B, H, W]) [b, h, w] = (b * H + h) * W + w"
  by (simp add: offset_def algebra_simps)

text \<open>
  C7. For logits of shape \<open>(B, C, H, W)\<close> (any strides) and annotations of shape
  \<open>(B, H, W)\<close>, \<^verbatim>\<open>flatten_logits\<close> with \<open>number_of_classes = C\<close> returns a
  tensor of shape \<open>(B * H * W, C)\<close> and \<^verbatim>\<open>flatten_annotations\<close> one of shape
  \<open>(B * H * W)\<close>; row \<open>k = (b * H + h) * W + w\<close> of the flattened logits holds the
  scores of pixel \<open>(b, h, w)\<close>, channel by channel, and element \<open>k\<close> of the flattened
  annotations is the annotation of the same pixel.
\<close>

theorem flatten_logits_aligned:
  assumes "tensor_wf logits" and "shape logits = [B, C, H, W]" and "0 < C"
    and "is_contiguous anno" and "shape anno = [B, H, W]"
  shows "\<exists>fl fa. flatten_logits logits (int C) = Inr fl \<and> flatten_annotations anno = Inr fa
     \<and> shape fl = [B * H * W, C] \<and> shape fa = [B * H * W]
     \<and> (\<forall>b h w. b < B \<and> h < H \<and> w < W \<longrightarrow>
           elem fa [(b * H + h) * W + w] = elem anno [b, h, w]
         \<and> (\<forall>c < C. elem fl [(b * H + h) * W + w, c] = elem logits [b, c, h, w]))"
proof -
  from assms(1,2) have "length (strides logits) = 4" by (simp add: tensor_wf_def)
  then obtain s0 s1 s2 s3 where st: "strides logits = [s0, s1, s2, s3]"
    by (auto simp: length_Suc_conv numeral_eq_Suc)
  define p where "p = logits\<lparr>shape := [B, H, W, C], strides := [s0, s2, s3, s1]\<rparr>"
  define fl where "fl = \<lparr>shape = [B * H * W, C], strides = [C, 1],
     storage = map (elem p) (all_indices [B, H, W, C])\<rparr>"
  define fa where "fa = \<lparr>shape = [B * H * W], strides = [1], storage = storage anno\<rparr>"
  have perm: "permute logits [0, 2, 3, 1] = Inr p"
    using permute_0231 [OF st assms(2)] by (simp add: p_def)
  have cont: "is_contiguous (contiguous p)"
    by (simp add: is_contiguous_def contiguous_def)
  have n: "numel (contiguous p) = (B * H * W) * C"
    by (simp add: numel_def contiguous_def p_def)
  have "view (contiguous p) [- 1, int C] = Inr fl"
    using view_rows [OF cont assms(3) n] by (simp add: fl_def contiguous_def p_def)
  with perm have 1: "flatten_logits logits (int C) = Inr fl"
    by (simp add: flatten_logits_def err_bind_def)
  have 2: "flatten_annotations anno = Inr fa"
    using view_flat [OF assms(4)] assms(5) by (simp add: flatten_annotations_def fa_def numel_def)
  have 3: "elem fa [(b * H + h) * W + w] = elem anno [b, h, w]" for b h w
  proof -
    from assms(4,5) have "strides anno = c_strides [B, H, W]" by (simp add: is_contiguous_def)
    then have "elem anno [b, h, w] = storage anno ! ((b * H + h) * W + w)"
      using row_major_offset3 [of B H W b h w] by (simp add: elem_def)
    then show ?thesis by (simp add: fa_def elem_def offset_def)
  qed
  have 4: "elem fl [(b * H + h) * W + w, c] = elem logits [b, c, h, w]"
    if "b < B" "h < H" "w < W" "c < C" for b h w c
  proof -
    let ?k = "offset (c_strides [B, H, W, C]) [b, h, w, c]"
    from that have "list_all2 (<) [b, h, w, c] [B, H, W, C]" by simp
    from all_indices_nth_offset [OF this]
    have lt: "?k < length (all_indices [B, H, W, C])"
      and nth: "all_indices [B, H, W, C] ! ?k = [b, h, w, c]"
      by (simp_all only: length_all_indices)
    have "elem fl [(b * H + h) * W + w, c] = storage fl ! ?k"
      unfolding row_major_offset4 by (simp add: elem_def fl_def offset_def)
    also have "\<dots> = elem p [b, h, w, c]"
      using lt nth by (simp add: fl_def del: all_indices.simps c_strides.simps)
    also have "\<dots> = elem logits [b, c, h, w]"
      by (simp add: elem_def p_def st offset_def ac_simps)
    finally show ?thesis .
  qed
  have "shape fl = [B * H * W, C]" and "shape fa = [B * H * W]"
    by (simp_all add: fl_def fa_def)
  with 1 2 3 4 show ?thesis by blast
qed



lemma flatten_logits_example: "flatten_logits example_logits 2 =
    Inr \<lparr>shape = [2, 2], strides = [2, 1], storage = [10, 20, 11, 21]\<rparr>"
proof -
  have "permute example_logits [0, 2, 3, 1] =
      Inr (example_logits\<lparr>shape := [1, 1, 2, 2], strides := [4, 2, 1, 2]\<rparr>)"
    by (rule permute_0231) (simp_all add: example_logits_def)
  moreover have "contiguous (example_logits\<lparr>shape := [1, 1, 2, 2], strides := [4, 2, 1, 2]\<rparr>) =
      \<lparr>shape = [1, 1, 2, 2], strides = [4, 4, 2, 1], storage = [10, 20, 11, 21]\<rparr>"
    by (simp add: contiguous_def example_logits_def elem_def offset_def upt_rec)
  moreover have "view \<lparr>shape = [1, 1, 2, 2], strides = [4, 4, 2, 1], storage = [10, 20, 11, 21::int]\<rparr>
      [- 1, 2] = Inr \<lparr>shape = [2, 2], strides = [2, 1], storage = [10, 20, 11, 21]\<rparr>"
    using view_rows [of "\<lparr>shape = [1, 1, 2, 2], strides = [4, 4, 2, 1], storage = [10, 20, 11, 21::int]\<rparr>" 2 2]
    by (simp add: is_contiguous_def numel_def)
  ultimately show ?thesis
    by (simp add: flatten_logits_def err_bind_def)
qed

theorem flatten_logits_aligned_witness:
  "tensor_wf example_logits \<and> shape example_logits = [1, 2, 1, 2] \<and> (0::nat) < 2
   \<and> is_contiguous example_anno \<and> shape example_anno = [1, 1, 2]
   \<and> flatten_logits example_logits 2 =
       Inr \<lparr>shape = [2, 2], strides = [2, 1], storage = [10, 20, 11, 21]\<rparr>
   \<and> flatten_annotations example_anno = Inr \<lparr>shape = [2], strides = [1], storage = [3, 0]\<rparr>
   \<and> elem \<lparr>shape = [2, 2], strides = [2, 1], storage = [10, 20, 11, 21]\<rparr> [1, 0]
       = elem example_logits [0, 0, 0, 1]
   \<and> elem \<lparr>shape = [2, 2], strides = [2, 1], storage = [10, 20, 11, 21]\<rparr> [1, 1]
       = elem example_logits [0, 1, 0, 1]"
proof -
  have wf: "tensor_wf example_logits"
    by (simp add: example_logits_def tensor_wf_def offset_def upt_rec)
  have shp: "shape example_logits = [1, 2, 1, 2]"
    by (simp add: example_logits_def)
  have cont: "is_contiguous example_anno" and ashp: "shape example_anno = [1, 1, 2]"
    by (simp_all add: example_anno_def is_contiguous_def)
  have fa: "flatten_annotations example_anno = Inr \<lparr>shape = [2], strides = [1], storage = [3, 0]\<rparr>"
    using view_flat [OF cont] by (simp add: flatten_annotations_def example_anno_def numel_def)
  from flatten_logits_aligned [OF wf shp _ cont ashp] flatten_logits_example fa wf shp cont ashp
  show ?thesis by simp
qed

subsection \<open>Index selector\<close>

text \<open>
  The selector returns the positions whose label differs from the ignore value, in their
  order, and gathering the annotations at these positions succeeds, as long as there is
  such a position.
\<close>

lemma get_valid_annotations_index_positions:
  "get_valid_annotations_index xs m =
     (if list_all (\<lambda>x. x = m) xs then FloatTensor []
      else LongTensor (map int (filter (\<lambda>k. xs ! k \<noteq> m) [0..<length xs])))"
proof -
  have "filter (\<lambda>k. xs ! k \<noteq> m) [0..<length xs] = [] \<longleftrightarrow> list_all (\<lambda>x. x = m) xs"
    by (auto simp: filter_empty_conv list_all_length)
  then show ?thesis
    by (simp add: get_valid_annotations_index_def Let_def)
qed

lemma get_valid_annotations_index_example:
  "get_valid_annotations_index [0, 255, 3, 255] 255 = LongTensor [0, 2]"
  by (simp add: get_valid_annotations_index_def upt_rec)

lemma index_select_valid_positions:
  "\<not> list_all (\<lambda>x. x = m) xs \<Longrightarrow>
     index_select xs (get_valid_annotations_index xs m) = Inr (filter (\<lambda>x. x \<noteq> m) xs)"
proof -
  assume "\<not> list_all (\<lambda>x. x = m) xs"
  then have idx: "get_valid_annotations_index xs m =
      LongTensor (map int (filter (\<lambda>k. xs ! k \<noteq> m) [0..<length xs]))"
    by (simp add: get_valid_annotations_index_positions)
  have "map ((!) xs) (filter (\<lambda>k. xs ! k \<noteq> m) [0..<length xs]) = filter (\<lambda>x. x \<noteq> m) (map ((!) xs) [0..<length xs])"
    by (simp add: filter_map comp_def)
  then have "map ((!) xs) (filter (\<lambda>k. xs ! k \<noteq> m) [0..<length xs]) = filter (\<lambda>x. x \<noteq> m) xs"
    by (simp add: map_nth)
  then show ?thesis
    by (simp add: idx index_select_def list_all_iff comp_def)
qed

lemma get_valid_annos_all_masked_raises:
  assumes "flatten_annotations anno = Inr anno_flatten"
    and "list_all (\<lambda>x. x = mask_out_value) (np_flatten anno_flatten)"
  shows "get_valid_annos anno mask_out_value = Inl TypeError"
  using assms
  by (simp add: get_valid_annos_def err_bind_def get_valid_annotations_index_positions
      index_select_def)

text \<open>
  C6. With every position masked out the selector returns \<^verbatim>\<open>torch.Tensor([])\<close>, an
  empty FloatTensor, without raising; but the gather that follows in
  \<^verbatim>\<open>get_valid_annos\<close> and in \<^verbatim>\<open>get_valid_logits\<close> rejects an index tensor that is not
  a LongTensor and raises, where the specification asks for empty results.
\<close>

theorem get_valid_annos_all_masked:
  "get_valid_annotations_index [255, 255] 255 = FloatTensor []
   \<and> get_valid_annos \<lparr>shape = [1, 1, 2], strides = [2, 2, 1], storage = [255, 255]\<rparr> 255
       = Inl TypeError
   \<and> get_valid_logits example_logits (FloatTensor []) 2 = Inl TypeError"
proof -
  have 1: "get_valid_annotations_index [255, 255] 255 = FloatTensor []"
    by (simp add: get_valid_annotations_index_def upt_rec)
  have "get_valid_annos \<lparr>shape = [1, 1, 2], strides = [2, 2, 1], storage = [255, 255]\<rparr> 255
       = Inl TypeError"
    by (simp add: get_valid_annos_def flatten_annotations_def view_def is_contiguous_def numel_def
        err_bind_def np_flatten_def elem_def offset_def upt_rec 1 index_select_def Let_def)
  moreover have "get_valid_logits example_logits (FloatTensor []) 2 = Inl TypeError"
    by (simp add: get_valid_logits_def flatten_logits_example err_bind_def index_select_def)
  ultimately show ?thesis using 1 by simp
qed

subsection \<open>The aided prediction loop\<close>

lemma np_argmax_pair: "np_argmax [x, y] = Inr (if x < y then 1 else 0)"
  by (simp add: np_argmax_def)

lemma err_bind_Inr_iff:
  "err_bind m f = Inr y \<longleftrightarrow> (\<exists>x. m = Inr x \<and> f x = Inr y)"
  by (cases m) (simp_all add: err_bind_def)

lemma aided_prediction_Inr:
  assumes "aided_prediction logits anno [b, i, j] = Inr v"
  shows "\<exists>so sp. tget logits [int b, to_pair (elem anno [b, i, j]) 20 ! 0, int i, int j] = Inr so
      \<and> tget logits [int b, to_pair (elem anno [b, i, j]) 20 ! 1, int i, int j] = Inr sp
      \<and> v = (if so < sp then to_pair (elem anno [b, i, j]) 20 ! 1
              else to_pair (elem anno [b, i, j]) 20 ! 0)"
proof -
  obtain obj part where pair: "to_pair (elem anno [b, i, j]) 20 = [obj, part]"
    by (cases "20 < elem anno [b, i, j]") (simp_all add: to_pair_def)
  from assms obtain so sp where "tget logits [int b, obj, int i, int j] = Inr so"
    and "tget logits [int b, part, int i, int j] = Inr sp"
    and "v = [obj, part] ! (if so < sp then 1 else 0)"
    by (auto simp: aided_prediction_def pair err_bind_Inr_iff np_argmax_pair)
  then show ?thesis by (simp add: pair)
qed

lemma elem_tset:
  assumes "strides p = c_strides shp" and "list_all2 (<) idx shp" and "list_all2 (<) x shp"
    and "length (storage p) = prod_list shp"
  shows "elem (tset p x v) idx = (if idx = x then v else elem p idx)"
proof (cases "idx = x")
  case True
  with all_indices_nth_offset [OF assms(3)] assms(1,4) show ?thesis
    by (simp add: elem_def tset_def)
next
  case False
  with offset_c_strides_inj [OF assms(2,3)]
  have "offset (c_strides shp) idx \<noteq> offset (c_strides shp) x" by blast
  with False assms(1) show ?thesis
    by (simp add: elem_def tset_def)
qed

lemma fold_err_tset:
  "fold_err (\<lambda>idx p. err_bind (g idx) (\<lambda>v. Inr (tset p idx v))) idxs p0 = Inr p \<Longrightarrow>
   strides p0 = c_strides shp \<Longrightarrow> length (storage p0) = prod_list shp \<Longrightarrow>
   \<forall>idx \<in> set idxs. list_all2 (<) idx shp \<Longrightarrow> distinct idxs \<Longrightarrow>
     shape p = shape p0 \<and> strides p = strides p0
   \<and> (\<forall>idx. list_all2 (<) idx shp \<longrightarrow>
         (if idx \<in> set idxs then g idx = Inr (elem p idx) else elem p idx = elem p0 idx))"
proof (induction idxs arbitrary: p0)
  case Nil
  then show ?case by simp
next
  case (Cons x xs)
  from Cons.prems(1) obtain v where gx: "g x = Inr v"
    and rest: "fold_err (\<lambda>idx p. err_bind (g idx) (\<lambda>v. Inr (tset p idx v))) xs (tset p0 x v) = Inr p"
    by (auto simp: err_bind_Inr_iff)
  let ?p1 = "tset p0 x v"
  have st: "strides ?p1 = c_strides shp" and len: "length (storage ?p1) = prod_list shp"
    using Cons.prems(2,3) by (simp_all add: tset_def)
  from Cons.prems(4,5) have rng: "\<forall>idx \<in> set xs. list_all2 (<) idx shp" and dist: "distinct xs"
    and x: "list_all2 (<) x shp" and fresh: "x \<notin> set xs"
    by simp_all
  from Cons.IH [OF rest st len rng dist]
  have shp: "shape p = shape ?p1" and str: "strides p = strides ?p1"
    and elems: "\<And>idx. list_all2 (<) idx shp \<Longrightarrow>
        (if idx \<in> set xs then g idx = Inr (elem p idx) else elem p idx = elem ?p1 idx)"
    by blast+
  have "if idx \<in> set (x # xs) then g idx = Inr (elem p idx) else elem p idx = elem p0 idx"
    if "list_all2 (<) idx shp" for idx
    using elems [OF that] elem_tset [OF Cons.prems(2) that x Cons.prems(3), of v] fresh gx
    by (auto split: if_splits)
  with shp str show ?case by (simp add: tset_def)
qed

lemma elem_zeros_like:
  assumes "list_all2 (<) idx (shape t)"
  shows "elem (zeros_like t) idx = 0"
  using all_indices_nth_offset [OF assms] by (simp add: elem_def zeros_like_def numel_def)

lemma outputs_tonp_gt_pixel:
  assumes "outputs_tonp_gt_unflattened logits anno = Inr (preds, gt)"
    and "list_all2 (<) idx (shape anno)"
  shows "gt = anno \<and> shape preds = shape anno
    \<and> (if 0 < elem anno idx \<and> elem anno idx \<noteq> 255
        then aided_prediction logits anno idx = Inr (elem preds idx)
        else elem preds idx = 0)"
proof -
  let ?idxs = "filter (\<lambda>index. elem anno index > 0 \<and> elem anno index \<noteq> 255)
                 (all_indices (shape anno))"
  from assms(1) have gt: "gt = anno"
    and fold: "fold_err (\<lambda>index predictions. err_bind (aided_prediction logits anno index)
                   (\<lambda>aided. Inr (tset predictions index aided))) ?idxs (zeros_like anno) = Inr preds"
    by (auto simp: outputs_tonp_gt_unflattened_def Let_def err_bind_Inr_iff)
  have "shape preds = shape (zeros_like anno) \<and> strides preds = strides (zeros_like anno)
   \<and> (\<forall>idx. list_all2 (<) idx (shape anno) \<longrightarrow>
         (if idx \<in> set ?idxs then aided_prediction logits anno idx = Inr (elem preds idx)
          else elem preds idx = elem (zeros_like anno) idx))"
    by (rule fold_err_tset [OF fold])
      (simp_all add: zeros_like_def numel_def set_all_indices distinct_all_indices)
  moreover have "shape (zeros_like anno) = shape anno"
    by (simp add: zeros_like_def)
  ultimately show ?thesis
    using assms(2) gt elem_zeros_like [OF assms(2)] by (simp add: set_all_indices)
qed

lemma length_np_flatten: "length (np_flatten t) = prod_list (shape t)"
  by (simp add: np_flatten_def length_all_indices)

lemma np_flatten_nth:
  assumes "list_all2 (<) idx (shape t)"
  shows "np_flatten t ! offset (c_strides (shape t)) idx = elem t idx"
  using all_indices_nth_offset [OF assms] by (simp add: np_flatten_def length_all_indices)

lemma outputs_tonp_gt_flattened:
  assumes "outputs_tonp_gt_unflattened logits anno = Inr (preds, gt)"
  shows "outputs_tonp_gt logits anno = Inr (np_flatten preds, np_flatten gt)"
  using assms by (simp add: outputs_tonp_gt_def err_bind_def)


text \<open>
  The loop returns whenever the logits have at least 41 channels and the shape of the
  annotations, and every label is at most 40 or the ignore value 255.
\<close>

lemma fold_err_total:
  "\<forall>x \<in> set xs. \<exists>v. g x = Inr v \<Longrightarrow>
     \<exists>p. fold_err (\<lambda>idx p. err_bind (g idx) (\<lambda>v. Inr (tset p idx v))) xs p0 = Inr p"
proof (induction xs arbitrary: p0)
  case Nil
  then show ?case by simp
next
  case (Cons x xs)
  from Cons.prems obtain v where "g x = Inr v" by auto
  moreover from Cons.prems have "\<forall>x \<in> set xs. \<exists>v. g x = Inr v" by simp
  from Cons.IH [OF this]
  obtain p where "fold_err (\<lambda>idx p. err_bind (g idx) (\<lambda>v. Inr (tset p idx v))) xs (tset p0 x v) = Inr p"
    by blast
  ultimately show ?case by (simp add: err_bind_def)
qed

lemma tget_in_range:
  assumes "shape t = [B, C, H, W]" and "b < B" and "0 \<le> c" and "c < int C" and "i < H" and "j < W"
  shows "tget t [int b, c, int i, int j] = Inr (elem t [b, nat c, i, j])"
  using assms by (simp add: tget_def err_bind_def)

lemma aided_prediction_total:
  assumes "shape logits = [B, C, H, W]" and "41 \<le> C"
    and "b < B" and "i < H" and "j < W"
    and "0 < elem anno [b, i, j]" and "elem anno [b, i, j] \<le> 40"
  shows "\<exists>v. aided_prediction logits anno [b, i, j] = Inr v"
proof (cases "20 < elem anno [b, i, j]")
  case True
  with assms show ?thesis
    by (simp add: aided_prediction_def to_pair_def tget_in_range err_bind_def np_argmax_pair Let_def)
next
  case False
  with assms show ?thesis
    by (simp add: aided_prediction_def to_pair_def tget_in_range err_bind_def np_argmax_pair Let_def)
qed

lemma outputs_tonp_gt_total:
  assumes "shape anno = [B, H, W]" and "shape logits = [B, C, H, W]" and "41 \<le> C"
    and "\<forall>idx \<in> set (all_indices [B, H, W]). elem anno idx \<le> 40 \<or> elem anno idx = 255"
  shows "\<exists>preds. outputs_tonp_gt_unflattened logits anno = Inr (preds, anno)"
proof -
  let ?idxs = "filter (\<lambda>index. elem anno index > 0 \<and> elem anno index \<noteq> 255)
                 (all_indices (shape anno))"
  have "\<exists>v. aided_prediction logits anno idx = Inr v" if "idx \<in> set ?idxs" for idx
  proof -
    from that have mem: "idx \<in> set (all_indices (shape anno))"
      and pos: "0 < elem anno idx" and ne: "elem anno idx \<noteq> 255"
      by simp_all
    from mem have mem': "idx \<in> set (all_indices [B, H, W])"
      by (simp only: assms(1))
    then have rng: "list_all2 (<) idx [B, H, W]"
      by (simp only: set_all_indices)
    from assms(4) mem' ne have le: "elem anno idx \<le> 40" by blast
    from rng obtain b i j where "idx = [b, i, j]" "b < B" "i < H" "j < W"
      by (auto simp: list_all2_Cons2)
    with aided_prediction_total [OF assms(2,3), of b i j anno] pos le show ?thesis by simp
  qed
  then have "\<exists>p. fold_err (\<lambda>index predictions. err_bind (aided_prediction logits anno index)
                   (\<lambda>aided. Inr (tset predictions index aided))) ?idxs (zeros_like anno) = Inr p"
    by (intro fold_err_total) blast
  then show ?thesis
    by (auto simp: outputs_tonp_gt_unflattened_def Let_def err_bind_def)
qed

lemma example_objpart_scores:
  "tget example_objpart_logits [0, 3, 0, 0] = Inr 0"
  "tget example_objpart_logits [0, 23, 0, 0] = Inr 5"
  by (simp_all add: example_objpart_logits_def tget_def err_bind_def elem_def offset_def)

lemma example_anno_elems:
  "elem example_anno [0, 0, 0] = 3" "elem example_anno [0, 0, 1] = 0"
  by (simp_all add: example_anno_def elem_def offset_def)

lemma example_positions:
  "filter (\<lambda>index. elem example_anno index > 0 \<and> elem example_anno index \<noteq> 255)
     (all_indices (shape example_anno)) = [[0, 0, 0]]"
  by (simp add: example_anno_def elem_def offset_def upt_rec)

lemma example_aided:
  "aided_prediction example_objpart_logits example_anno [0, 0, 0] = Inr 23"
  by (simp add: aided_prediction_def example_anno_elems to_pair_def example_objpart_scores
      err_bind_def np_argmax_pair)


lemma outputs_tonp_gt_example:
  "outputs_tonp_gt_unflattened example_objpart_logits example_anno =
     Inr (example_predictions, example_anno)"
proof -
  have "tset (zeros_like example_anno) [0, 0, 0] 23 = example_predictions"
    by (simp add: zeros_like_def tset_def numel_def example_anno_def offset_def numeral_2_eq_2
        example_predictions_def)
  then show ?thesis
    unfolding outputs_tonp_gt_unflattened_def Let_def example_positions
    by (simp add: example_aided err_bind_def)
qed

lemma example_predictions_elems:
  "elem example_predictions [0, 0, 0] = 23" "elem example_predictions [0, 0, 1] = 0"
  by (simp_all add: example_predictions_def elem_def offset_def)

text \<open>
  C1. Where \<^verbatim>\<open>outputs_tonp_gt\<close> returns, for every pixel \<open>(b, i, j)\<close> with a label
  \<open>a \<le> 255\<close> (labels are class indices or the ignore value 255): if \<open>0 < a < 255\<close>, the
  prediction is the member of the pair \<open>[obj_idx, part_idx] = to_pair(a, 20)\<close> with the
  greater score at the pixel (the object channel on a tie, as \<^verbatim>\<open>np.argmax\<close> returns the
  first maximum); otherwise the prediction is 0. The flattened result of the default call
  holds the prediction of pixel \<open>(b, i, j)\<close> at position \<open>(b * H + i) * W + j\<close>.
\<close>

theorem outputs_tonp_gt_aided:
  assumes "outputs_tonp_gt_unflattened logits anno = Inr (preds, gt)"
    and "shape anno = [B, H, W]" and "b < B" and "i < H" and "j < W"
    and "elem anno [b, i, j] \<le> 255"
  shows "outputs_tonp_gt logits anno = Inr (np_flatten preds, np_flatten anno)
    \<and> np_flatten preds ! ((b * H + i) * W + j) = elem preds [b, i, j]
    \<and> np_flatten anno ! ((b * H + i) * W + j) = elem anno [b, i, j]
    \<and> (let a = elem anno [b, i, j];
            obj_idx = to_pair a 20 ! 0;
            part_idx = to_pair a 20 ! 1
        in (0 < a \<and> a < 255 \<longrightarrow>
              (\<exists>obj_score part_score.
                  tget logits [int b, obj_idx, int i, int j] = Inr obj_score
                \<and> tget logits [int b, part_idx, int i, int j] = Inr part_score
                \<and> elem preds [b, i, j] = (if obj_score < part_score then part_idx else obj_idx)))
         \<and> (\<not> (0 < a \<and> a < 255) \<longrightarrow> elem preds [b, i, j] = 0))"
proof -
  from assms(2-5) have rng: "list_all2 (<) [b, i, j] (shape anno)" by simp
  note pixel = outputs_tonp_gt_pixel [OF assms(1) rng]
  then have gt: "gt = anno" and shp: "shape preds = [B, H, W]"
    using assms(2) by simp_all
  have 1: "outputs_tonp_gt logits anno = Inr (np_flatten preds, np_flatten anno)"
    using outputs_tonp_gt_flattened [OF assms(1)] gt by simp
  have 2: "np_flatten preds ! ((b * H + i) * W + j) = elem preds [b, i, j]"
    using np_flatten_nth [of "[b, i, j]" preds] rng assms(2) shp
    by (simp add: row_major_offset3 del: c_strides.simps)
  have 3: "np_flatten anno ! ((b * H + i) * W + j) = elem anno [b, i, j]"
    using np_flatten_nth [OF rng] assms(2)
    by (simp add: row_major_offset3 del: c_strides.simps)
  define a where "a = elem anno [b, i, j]"
  have 4: "\<exists>obj_score part_score.
                  tget logits [int b, to_pair a 20 ! 0, int i, int j] = Inr obj_score
                \<and> tget logits [int b, to_pair a 20 ! 1, int i, int j] = Inr part_score
                \<and> elem preds [b, i, j] =
                    (if obj_score < part_score then to_pair a 20 ! 1 else to_pair a 20 ! 0)"
    if "0 < a \<and> a < 255"
  proof -
    from that pixel have "aided_prediction logits anno [b, i, j] = Inr (elem preds [b, i, j])"
      by (simp add: a_def)
    from aided_prediction_Inr [OF this] show ?thesis unfolding a_def .
  qed
  have 5: "elem preds [b, i, j] = 0" if "\<not> (0 < a \<and> a < 255)"
    using that pixel assms(6) by (auto simp: a_def)
  from 1 2 3 4 5 show ?thesis
    unfolding Let_def a_def by blast
qed

theorem outputs_tonp_gt_aided_witness:
  "outputs_tonp_gt_unflattened example_objpart_logits example_anno =
     Inr (example_predictions, example_anno)
   \<and> shape example_anno = [1, 1, 2] \<and> (0::nat) < 1 \<and> (0::nat) < 2
   \<and> elem example_anno [0, 0, 0] = 3 \<and> (3::int) \<le> 255 \<and> to_pair 3 20 = [3, 23]
   \<and> tget example_objpart_logits [0, 3, 0, 0] = Inr 0
   \<and> tget example_objpart_logits [0, 23, 0, 0] = Inr 5
   \<and> elem example_predictions [0, 0, 0] = 23
   \<and> elem example_anno [0, 0, 1] = 0
   \<and> elem example_predictions [0, 0, 1] = 0
   \<and> outputs_tonp_gt example_objpart_logits example_anno = Inr ([23, 0], [3, 0])"
proof -
  have shp: "shape example_anno = [1, 1, 2]" by (simp add: example_anno_def)
  have fl: "np_flatten example_predictions = [23, 0]" "np_flatten example_anno = [3, 0]"
    by (simp_all add: np_flatten_def example_anno_def example_predictions_def elem_def
        offset_def upt_rec)
  have tp: "to_pair 3 20 = [3, 23]" by (simp add: to_pair_def)
  from outputs_tonp_gt_aided [OF outputs_tonp_gt_example shp, of 0 0 0]
  have "outputs_tonp_gt example_objpart_logits example_anno =
      Inr (np_flatten example_predictions, np_flatten example_anno)"
    by (simp add: example_anno_elems)
  with outputs_tonp_gt_example shp fl tp example_anno_elems example_objpart_scores
    example_predictions_elems
  show ?thesis by simp
qed

text \<open>
  C10. Every entry of the prediction array is 0 or a member of the channel pair of the
  label at its position; for a label \<open>a\<close> with \<open>0 < a < 255\<close> it is \<open>a\<close> itself or its
  counterpart (\<open>a + 20\<close> when \<open>a \<le> 20\<close>, \<open>a - 20\<close> otherwise).
\<close>

theorem outputs_tonp_gt_within_pair:
  assumes "outputs_tonp_gt_unflattened logits anno = Inr (preds, gt)"
    and "shape anno = [B, H, W]" and "b < B" and "i < H" and "j < W"
  shows "(elem preds [b, i, j] = 0 \<or> elem preds [b, i, j] \<in> set (to_pair (elem anno [b, i, j]) 20))
    \<and> (0 < elem anno [b, i, j] \<and> elem anno [b, i, j] < 255 \<longrightarrow>
          elem preds [b, i, j] = elem anno [b, i, j]
        \<or> elem preds [b, i, j] =
            (if elem anno [b, i, j] \<le> 20 then elem anno [b, i, j] + 20 else elem anno [b, i, j] - 20))"
proof -
  from assms(2-5) have rng: "list_all2 (<) [b, i, j] (shape anno)" by simp
  note pixel = outputs_tonp_gt_pixel [OF assms(1) rng]
  define a where "a = elem anno [b, i, j]"
  show ?thesis
  proof (cases "0 < a \<and> a \<noteq> 255")
    case True
    with pixel have "aided_prediction logits anno [b, i, j] = Inr (elem preds [b, i, j])"
      by (simp add: a_def)
    from aided_prediction_Inr [OF this]
    have "elem preds [b, i, j] = to_pair a 20 ! 0 \<or> elem preds [b, i, j] = to_pair a 20 ! 1"
      by (auto simp: a_def split: if_splits)
    then show ?thesis
      unfolding a_def [symmetric] by (auto simp: to_pair_def split: if_splits)
  next
    case False
    with pixel have "elem preds [b, i, j] = 0" by (auto simp: a_def)
    with False show ?thesis
      unfolding a_def [symmetric] by auto
  qed
qed



theorem outputs_tonp_gt_within_pair_witness:
  "outputs_tonp_gt_unflattened example_objpart_logits example_anno =
     Inr (example_predictions, example_anno)
   \<and> shape example_anno = [1, 1, 2] \<and> (0::nat) < 1 \<and> (0::nat) < 2
   \<and> elem example_anno [0, 0, 0] = 3 \<and> (0::int) < 3 \<and> (3::int) < 255
   \<and> elem example_predictions [0, 0, 0] = 3 + 20
   \<and> elem example_predictions [0, 0, 0] \<in> set (to_pair 3 20)"
proof -
  have shp: "shape example_anno = [1, 1, 2]" by (simp add: example_anno_def)
  have tp: "to_pair 3 20 = [3, 23]" by (simp add: to_pair_def)
  from outputs_tonp_gt_within_pair [OF outputs_tonp_gt_example shp, of 0 0 0]
  have "elem example_predictions [0, 0, 0] \<in> set (to_pair 3 20)"
    by (simp add: example_anno_elems example_predictions_elems tp)
  with outputs_tonp_gt_example shp tp example_anno_elems example_predictions_elems
  show ?thesis by simp
qed

subsection \<open>The per-batch driver\<close>

lemma filter_enumerate:
  "map snd (filter (\<lambda>(i, x). P i) (enumerate 0 xs)) = map ((!) xs) (filter P [0..<length xs])"
proof -
  have "enumerate 0 xs = map (\<lambda>i. (i, xs ! i)) [0..<length xs]"
    using enumerate_map_upt [of 0 "(!) xs" "length xs"] by (simp add: map_nth)
  then show ?thesis
    by (simp add: filter_map comp_def)
qed

lemma foldr_np_add_Finite: "foldr np_add (map Finite vs) (Finite 0) = Finite (sum_list vs)"
  by (induction vs) simp_all

lemma np_mean_Finite:
  "np_mean (map Finite vs) = (if vs = [] then NaN else Finite (sum_list vs / real (length vs)))"
  by (simp add: np_mean_def foldr_np_add_Finite)

lemma np_mean_selected:
  "np_mean (map snd (filter (\<lambda>(i, x). P i) (enumerate 0 (map Finite vs)))) =
     (if {i. i < length vs \<and> P i} = {} then NaN
      else Finite ((\<Sum>i \<in> {i. i < length vs \<and> P i}. vs ! i) / real (card {i. i < length vs \<and> P i})))"
proof -
  let ?sel = "filter P [0..<length vs]"
  have set_sel: "set ?sel = {i. i < length vs \<and> P i}" by auto
  have dist: "distinct ?sel" by simp
  have sel: "map ((!) (map Finite vs)) ?sel = map Finite (map ((!) vs) ?sel)"
    by simp
  have "sum_list (map ((!) vs) ?sel) = (\<Sum>i \<in> set ?sel. vs ! i)"
    using dist by (simp add: sum_list_distinct_conv_sum_set)
  moreover have "length ?sel = card (set ?sel)"
    by (rule distinct_card [symmetric]) (rule dist)
  moreover have "?sel = [] \<longleftrightarrow> set ?sel = {}" by (rule set_empty [symmetric])
  ultimately show ?thesis
    unfolding filter_enumerate length_map sel np_mean_Finite set_sel [symmetric]
    by (simp del: set_filter)
qed

lemma np_mean_all:
  "np_mean (map Finite vs) =
     (if vs = [] then NaN else Finite ((\<Sum>i < length vs. vs ! i) / real (length vs)))"
proof -
  have "sum_list vs = (\<Sum>i < length vs. vs ! i)"
    by (simp add: sum_list_sum_nth lessThan_atLeast0)
  then show ?thesis by (simp add: np_mean_Finite)
qed

text \<open>The metrics of a confusion matrix are numbers.\<close>

lemma all_Finite:
  assumes "\<And>i. i < length xs \<Longrightarrow> \<exists>v. xs ! i = Finite v"
  shows "xs = map Finite (map finite_value xs)"
proof (rule nth_equalityI)
  show "length xs = length (map Finite (map finite_value xs))" by simp
next
  fix i assume "i < length xs"
  with assms [of i] show "xs ! i = map Finite (map finite_value xs) ! i" by auto
qed

lemma get_iou_Finite:
  assumes "confusion_matrix_wf M"
  shows "get_iou M = map Finite (map finite_value (get_iou M))"
proof (rule all_Finite)
  fix i assume "i < length (get_iou M)"
  then have i: "i < length M" by (simp add: length_get_iou)
  let ?u = "sum_axis1 M ! i + sum_axis0 M ! i - np_diag M ! i"
  from diag_le_row_sum [OF assms i] diag_le_col_sum [OF assms i]
  have "0 < (if ?u = 0 then 1 else ?u)" by auto
  then have "0 < float32_of_int (if ?u = 0 then 1 else ?u)"
    by (rule float32_of_int_pos)
  with get_iou_nth [OF i] show "\<exists>v. get_iou M ! i = Finite v"
    by (simp add: Let_def np_true_divide_pos)
qed

lemma get_precision_recall_Finite:
  "fst (get_precision_recall M) = map Finite (map finite_value (fst (get_precision_recall M)))"
  "snd (get_precision_recall M) = map Finite (map finite_value (snd (get_precision_recall M)))"
proof -
  show "fst (get_precision_recall M) = map Finite (map finite_value (fst (get_precision_recall M)))"
  proof (rule all_Finite)
    fix i assume "i < length (fst (get_precision_recall M))"
    then have "i < length M" by (simp add: length_get_precision_recall)
    from get_precision_nth [OF this] show "\<exists>v. fst (get_precision_recall M) ! i = Finite v"
      by (simp add: np_true_divide_pos float_denominator_pos)
  qed
  show "snd (get_precision_recall M) = map Finite (map finite_value (snd (get_precision_recall M)))"
  proof (rule all_Finite)
    fix i assume "i < length (snd (get_precision_recall M))"
    then have "i < length M" by (simp add: length_get_precision_recall)
    from get_recall_nth [OF this] show "\<exists>v. snd (get_precision_recall M) ! i = Finite v"
      by (simp add: np_true_divide_pos float_denominator_pos)
  qed
qed

lemma confusion_matrix_is_wf:
  assumes "confusion_matrix y_true y_pred labels = Inr m"
  shows "confusion_matrix_wf m"
  using assms
  by (auto simp: confusion_matrix_def confusion_matrix_wf_def Let_def list_all_iff
      split: if_splits)

lemma validate_batch_Inr:
  assumes "validate_batch objpart_dat semantic_dat overall_part overall_sem labels
             = Inr (metrics, mIoU, part', sem')"
  shows "\<exists>cur_sem cur_part.
      batch_confusion_matrices objpart_dat semantic_dat labels = Inr (cur_sem, cur_part)
    \<and> accumulate overall_sem cur_sem = Inr sem'
    \<and> accumulate overall_part cur_part = Inr part'
    \<and> batch_metrics cur_sem cur_part = (metrics, mIoU)"
  using assms
  by (auto simp: validate_batch_def err_bind_Inr_iff Let_def split_beta)

lemma outputs_tonp_gt_shape:
  assumes "outputs_tonp_gt_unflattened logits anno = Inr (preds, gt)"
  shows "gt = anno \<and> shape preds = shape anno"
proof -
  let ?idxs = "filter (\<lambda>index. elem anno index > 0 \<and> elem anno index \<noteq> 255)
                 (all_indices (shape anno))"
  from assms have gt: "gt = anno"
    and fold: "fold_err (\<lambda>index predictions. err_bind (aided_prediction logits anno index)
                   (\<lambda>aided. Inr (tset predictions index aided))) ?idxs (zeros_like anno) = Inr preds"
    by (auto simp: outputs_tonp_gt_unflattened_def Let_def err_bind_Inr_iff)
  have "shape preds = shape (zeros_like anno) \<and> strides preds = strides (zeros_like anno)
   \<and> (\<forall>idx. list_all2 (<) idx (shape anno) \<longrightarrow>
         (if idx \<in> set ?idxs then aided_prediction logits anno idx = Inr (elem preds idx)
          else elem preds idx = elem (zeros_like anno) idx))"
    by (rule fold_err_tset [OF fold])
      (simp_all add: zeros_like_def numel_def set_all_indices distinct_all_indices)
  then show ?thesis using gt by (simp add: zeros_like_def)
qed

lemma outputs_tonp_gt_Inr:
  assumes "outputs_tonp_gt logits anno = Inr (preds, gts)"
  shows "gts = np_flatten anno \<and> length preds = length gts"
proof -
  from assms obtain P G where un: "outputs_tonp_gt_unflattened logits anno = Inr (P, G)"
    and "preds = np_flatten P" and "gts = np_flatten G"
    by (auto simp: outputs_tonp_gt_def err_bind_Inr_iff)
  with outputs_tonp_gt_shape [OF un] show ?thesis
    by (simp add: length_np_flatten)
qed

lemma numpyify_Inr:
  assumes "numpyify_logits_and_annotations logits anno = Inr (preds, gts)"
  shows "gts = np_flatten anno"
  using assms
  by (auto simp: numpyify_logits_and_annotations_def err_bind_Inr_iff
      split: list.splits if_splits)



lemma batch_confusion_matrices_Inr:
  assumes "batch_confusion_matrices (objpart_logits, objpart_anno) (semantic_logits, semantic_anno)
             (objpart_labels, semantic_labels) = Inr (cur_sem, cur_part)"
  shows "\<exists>preds spreds.
      outputs_tonp_gt objpart_logits objpart_anno = Inr (preds, np_flatten objpart_anno)
    \<and> length preds = length (np_flatten objpart_anno)
    \<and> numpyify_logits_and_annotations semantic_logits semantic_anno
         = Inr (spreds, np_flatten semantic_anno)
    \<and> confusion_matrix (map (\<lambda>a. if a = 0 then - 1 else a) (np_flatten objpart_anno)) preds
         objpart_labels = Inr cur_part
    \<and> confusion_matrix (np_flatten semantic_anno) spreds semantic_labels = Inr cur_sem"
proof -
  from assms obtain spreds sgts preds gts where
    s: "numpyify_logits_and_annotations semantic_logits semantic_anno = Inr (spreds, sgts)"
    and p: "outputs_tonp_gt objpart_logits objpart_anno = Inr (preds, gts)"
    and cs: "confusion_matrix sgts spreds semantic_labels = Inr cur_sem"
    and cp: "confusion_matrix (map (\<lambda>a. if a = 0 then - 1 else a) gts) preds objpart_labels
               = Inr cur_part"
    by (auto simp: batch_confusion_matrices_def err_bind_Inr_iff Let_def)
  from numpyify_Inr [OF s] outputs_tonp_gt_Inr [OF p] s p cs cp show ?thesis
    by auto
qed

text \<open>The driver on the sample batch, with the labels \<open>[3, 23]\<close> and \<open>[0, 1]\<close>.\<close>

lemma numpyify_example:
  "numpyify_logits_and_annotations example_logits example_semantic_anno = Inr ([1, 1], [1, 0])"
  by (simp add: numpyify_logits_and_annotations_def example_logits_def example_semantic_anno_def
      np_flatten_def elem_def offset_def upt_rec np_argmax_pair err_bind_def)


lemma outputs_tonp_gt_example_flat:
  "outputs_tonp_gt example_objpart_logits example_anno = Inr ([23, 0], [3, 0])"
proof -
  have "np_flatten example_predictions = [23, 0]" "np_flatten example_anno = [3, 0]"
    by (simp_all add: np_flatten_def example_anno_def example_predictions_def elem_def
        offset_def upt_rec)
  with outputs_tonp_gt_flattened [OF outputs_tonp_gt_example] show ?thesis by simp
qed


lemma confusion_matrix_examples:
  "confusion_matrix [1, 0] [1, 1] [0, 1] = Inr [[0, 1], [0, 1]]"
  "confusion_matrix [3, - 1] [23, 0] [3, 23] = Inr [[0, 1], [0, 0]]"
  by (simp_all add: confusion_matrix_def upt_rec)


lemma batch_confusion_matrices_example:
  "batch_confusion_matrices (example_objpart_logits, example_anno)
     (example_logits, example_semantic_anno) ([3, 23], [0, 1])
   = Inr ([[0, 1], [0, 1]], [[0, 1], [0, 0]])"
  by (simp add: batch_confusion_matrices_def numpyify_example outputs_tonp_gt_example_flat
      confusion_matrix_examples err_bind_def)


lemma batch_metrics_example:
  "batch_metrics [[0, 1], [0, 1]] [[0, 1], [0, 0]] = ((Finite 0, Finite 0), Finite (1 / 4))"
proof -
  have "get_iou [[0, 1], [0, 1]] = [Finite 0, Finite (1 / 2)]"
    by (simp add: get_iou_def np_diag_def sum_axis1_def sum_axis0_def np_true_divide_def
        float32_of_int_exact float64_of_int_exact upt_rec)
  moreover have "get_precision_recall [[0, 1], [0, 0]]
      = ([Finite 0, Finite 0], [Finite 0, Finite 0])"
    by (simp add: get_precision_recall_def np_diag_def sum_axis1_def sum_axis0_def
        np_true_divide_def float32_of_int_exact float64_of_int_exact upt_rec)
  ultimately show ?thesis
    by (simp add: batch_metrics_def np_mean_def no_parts_def)
qed

lemma validate_batch_example:
  "validate_batch (example_objpart_logits, example_anno) (example_logits, example_semantic_anno)
     None None ([3, 23], [0, 1])
   = Inr ((Finite 0, Finite 0), Finite (1 / 4), [[0, 1], [0, 0]], [[0, 1], [0, 1]])"
  by (simp add: validate_batch_def batch_confusion_matrices_example batch_metrics_example
      accumulate_def err_bind_def)






lemma batch_confusion_matrices_wf:
  assumes "batch_confusion_matrices objpart_dat semantic_dat labels = Inr (cur_sem, cur_part)"
  shows "confusion_matrix_wf cur_sem" and "confusion_matrix_wf cur_part"
proof -
  obtain ol oa sl sa olabels slabels where "objpart_dat = (ol, oa)" and "semantic_dat = (sl, sa)"
    and "labels = (olabels, slabels)"
    by (cases objpart_dat, cases semantic_dat, cases labels) blast
  with batch_confusion_matrices_Inr [of ol oa sl sa olabels slabels cur_sem cur_part] assms
  show "confusion_matrix_wf cur_sem" and "confusion_matrix_wf cur_part"
    by (auto dest: confusion_matrix_is_wf)
qed

text \<open>
  C9. The macro precision and the macro recall that \<^verbatim>\<open>validate_batch\<close> returns are the
  means of the per-class precision and recall of the batch's object-part matrix over the
  classes that are not in the list \<open>[0, 4, 9, 11, 18, 20, 24, 29, 31, 38, 40]\<close>, and the
  semantic mIoU is the mean of the IoU over all classes of the semantic matrix. The
  per-class values are numbers, and the mean over no class is NaN.
\<close>

theorem validate_batch_macro_averages:
  assumes "validate_batch objpart_dat semantic_dat overall_part overall_sem labels
             = Inr ((mPrec, mRec), mIoU, part', sem')"
  shows "\<exists>cur_sem cur_part prec rec iou.
      batch_confusion_matrices objpart_dat semantic_dat labels = Inr (cur_sem, cur_part)
    \<and> get_precision_recall cur_part = (map Finite prec, map Finite rec)
    \<and> get_iou cur_sem = map Finite iou
    \<and> (let classes = {i. i < length cur_part \<and> i \<notin> {0, 4, 9, 11, 18, 20, 24, 29, 31, 38, 40}}
        in mPrec = (if classes = {} then NaN
                    else Finite ((\<Sum>i \<in> classes. prec ! i) / real (card classes)))
         \<and> mRec = (if classes = {} then NaN
                   else Finite ((\<Sum>i \<in> classes. rec ! i) / real (card classes))))
    \<and> mIoU = (if cur_sem = [] then NaN
               else Finite ((\<Sum>i < length cur_sem. iou ! i) / real (length cur_sem)))"
proof -
  from validate_batch_Inr [OF assms] obtain cur_sem cur_part where
    cur: "batch_confusion_matrices objpart_dat semantic_dat labels = Inr (cur_sem, cur_part)"
    and metrics: "batch_metrics cur_sem cur_part = ((mPrec, mRec), mIoU)"
    by blast
  define prec where "prec = map finite_value (fst (get_precision_recall cur_part))"
  define rec where "rec = map finite_value (snd (get_precision_recall cur_part))"
  define iou where "iou = map finite_value (get_iou cur_sem)"
  let ?classes = "{i. i < length cur_part \<and> i \<notin> {0, 4, 9, 11, 18, 20, 24, 29, 31, 38, 40::nat}}"
  have fp: "fst (get_precision_recall cur_part) = map Finite prec"
    and fr: "snd (get_precision_recall cur_part) = map Finite rec"
    using get_precision_recall_Finite [of cur_part] by (simp_all add: prec_def rec_def)
  then have pr: "get_precision_recall cur_part = (map Finite prec, map Finite rec)"
    by (simp add: prod_eq_iff)
  have fi: "get_iou cur_sem = map Finite iou"
    using get_iou_Finite [OF batch_confusion_matrices_wf(1) [OF cur]] by (simp add: iou_def)
  have lens: "length prec = length cur_part" "length rec = length cur_part"
    "length iou = length cur_sem"
    by (simp_all add: prec_def rec_def iou_def length_get_precision_recall length_get_iou)
  have np: "set no_parts = {0, 4, 9, 11, 18, 20, 24, 29, 31, 38, 40}"
    by (simp add: no_parts_def)
  from metrics have
    p: "mPrec = np_mean (map snd (filter (\<lambda>(i, prec). i \<notin> set no_parts)
          (enumerate 0 (map Finite prec))))"
    and r: "mRec = np_mean (map snd (filter (\<lambda>(i, rec). i \<notin> set no_parts)
          (enumerate 0 (map Finite rec))))"
    and u: "mIoU = np_mean (map Finite iou)"
    by (simp_all add: batch_metrics_def Let_def pr fi)
  have 1: "mPrec = (if ?classes = {} then NaN
                    else Finite ((\<Sum>i \<in> ?classes. prec ! i) / real (card ?classes)))"
    unfolding p np_mean_selected np lens ..
  have 2: "mRec = (if ?classes = {} then NaN
                    else Finite ((\<Sum>i \<in> ?classes. rec ! i) / real (card ?classes)))"
    unfolding r np_mean_selected np lens ..
  have "iou = [] \<longleftrightarrow> cur_sem = []"
    using lens(3) by (metis length_0_conv)
  then have 3: "mIoU = (if cur_sem = [] then NaN
                   else Finite ((\<Sum>i < length cur_sem. iou ! i) / real (length cur_sem)))"
    unfolding u np_mean_all lens by simp
  from cur pr fi 1 2 3 show ?thesis
    unfolding Let_def by blast
qed

theorem validate_batch_macro_averages_witness:
  "validate_batch (example_objpart_logits, example_anno) (example_logits, example_semantic_anno)
     None None ([3, 23], [0, 1])
     = Inr ((Finite 0, Finite 0), Finite (1 / 4), [[0, 1], [0, 0]], [[0, 1], [0, 1]])
   \<and> batch_confusion_matrices (example_objpart_logits, example_anno)
       (example_logits, example_semantic_anno) ([3, 23], [0, 1])
       = Inr ([[0, 1], [0, 1]], [[0, 1], [0, 0]])
   \<and> get_precision_recall [[0, 1], [0, 0]] = (map Finite [0, 0], map Finite [0, 0])
   \<and> get_iou [[0, 1], [0, 1]] = map Finite [0, 1 / 2]
   \<and> {i. i < length [[0, 1], [0, 0 :: int]] \<and> i \<notin> {0, 4, 9, 11, 18, 20, 24, 29, 31, 38, 40}} = {1}
   \<and> Finite 0 = Finite ([0, 0] ! 1 / 1)
   \<and> Finite (1 / 4) = Finite (([0, 1 / 2] ! 0 + [0, 1 / 2] ! 1) / 2)"
proof -
  have classes: "{i. i < length [[0, 1], [0, 0 :: int]]
      \<and> i \<notin> {0, 4, 9, 11, 18, 20, 24, 29, 31, 38, 40}} = {1}"
    by auto
  have lt2: "{..<length [[0, 1], [0, 1 :: int]]} = {0, 1}" by auto
  have gpr: "get_precision_recall [[0, 1], [0, 0]] = (map Finite [0, 0], map Finite [0, 0])"
    by (simp add: get_precision_recall_def np_diag_def sum_axis1_def sum_axis0_def
        np_true_divide_def float32_of_int_exact float64_of_int_exact upt_rec)
  have giou: "get_iou [[0, 1], [0, 1]] = map Finite [0, 1 / 2]"
    by (simp add: get_iou_def np_diag_def sum_axis1_def sum_axis0_def np_true_divide_def
        float32_of_int_exact float64_of_int_exact upt_rec)
  from validate_batch_macro_averages [OF validate_batch_example]
  obtain cs cp prec rec iou where
    c: "batch_confusion_matrices (example_objpart_logits, example_anno)
       (example_logits, example_semantic_anno) ([3, 23], [0, 1]) = Inr (cs, cp)"
    and vals: "get_precision_recall cp = (map Finite prec, map Finite rec)"
      "get_iou cs = map Finite iou"
    and pr: "let classes = {i. i < length cp \<and> i \<notin> {0, 4, 9, 11, 18, 20, 24, 29, 31, 38, 40}}
        in Finite 0 = (if classes = {} then NaN
                    else Finite ((\<Sum>i \<in> classes. prec ! i) / real (card classes)))
         \<and> Finite 0 = (if classes = {} then NaN
                   else Finite ((\<Sum>i \<in> classes. rec ! i) / real (card classes)))"
    and iou: "Finite (1 / 4) = (if cs = [] then NaN
                   else Finite ((\<Sum>i < length cs. iou ! i) / real (length cs)))"
    by blast
  from c batch_confusion_matrices_example
  have cs: "cs = [[0, 1], [0, 1]]" and cp: "cp = [[0, 1], [0, 0]]" by simp_all
  from vals gpr giou have "map Finite prec = map Finite [0, 0]" "map Finite iou = map Finite [0, 1 / 2]"
    by (simp_all add: cs cp)
  then have prec: "prec = [0, 0]" and iouv: "iou = [0, 1 / 2]"
    by (auto simp: map_eq_Cons_conv)
  from pr have "Finite 0 = Finite ([0, 0] ! 1 / 1 :: real)"
    unfolding Let_def cp classes prec by simp
  moreover from iou
  have "Finite (1 / 4) = Finite (([0, 1 / 2] ! 0 + [0, 1 / 2] ! 1) / 2 :: real)"
    unfolding cs lt2 iouv by simp
  ultimately show ?thesis
    using validate_batch_example batch_confusion_matrices_example classes gpr giou by simp
qed

subsection \<open>Accumulation of the running matrices\<close>

text \<open>The elementwise sum of matrices is commutative and associative.\<close>

lemma map2_add_commute:
  fixes xs ys :: "int list"
  shows "map2 (+) xs ys = map2 (+) ys xs"
  by (induction xs ys rule: list_induct2') simp_all

lemma map2_add_assoc:
  fixes xs ys zs :: "int list"
  shows "map2 (+) (map2 (+) xs ys) zs = map2 (+) xs (map2 (+) ys zs)"
proof (induction xs arbitrary: ys zs)
  case Nil
  then show ?case by simp
next
  case (Cons x xs)
  show ?case
    by (cases ys; cases zs) (simp_all add: Cons.IH)
qed

lemma madd_commute:
  fixes a b :: matrix
  shows "map2 (map2 (+)) a b = map2 (map2 (+)) b a"
  by (induction a b rule: list_induct2') (simp_all add: map2_add_commute)

lemma madd_assoc:
  fixes a b c :: matrix
  shows "map2 (map2 (+)) (map2 (map2 (+)) a b) c = map2 (map2 (+)) a (map2 (map2 (+)) b c)"
proof (induction a arbitrary: b c)
  case Nil
  then show ?case by simp
next
  case (Cons x xs)
  show ?case
    by (cases b; cases c) (simp_all add: Cons.IH map2_add_assoc)
qed

lemma madd_left_commute:
  fixes a b c :: matrix
  shows "map2 (map2 (+)) (map2 (map2 (+)) a b) c = map2 (map2 (+)) (map2 (map2 (+)) a c) b"
  by (metis madd_assoc madd_commute)

lemma map2_add_zeros:
  fixes xs :: "int list"
  shows "map2 (+) (replicate (length xs) 0) xs = xs"
  by (induction xs) simp_all

lemma madd_zeros:
  assumes "square_matrix n c"
  shows "map2 (map2 (+)) (replicate n (replicate n 0)) c = c"
proof -
  have "map2 (map2 (+)) (replicate (length c) (replicate n 0)) c = c"
    if "\<forall>row \<in> set c. length row = n" for c :: matrix
    using that
  proof (induction c)
    case Nil
    then show ?case by simp
  next
    case (Cons row c)
    then have "map2 (+) (replicate n 0) row = row"
      using map2_add_zeros [of row] by simp
    with Cons show ?case by simp
  qed
  from this [of c] assms show ?thesis by (auto simp: square_matrix_def list_all_iff)
qed

lemma square_matrix_madd:
  assumes "square_matrix n a" and "square_matrix n b"
  shows "same_shape a b" and "square_matrix n (map2 (map2 (+)) a b)"
proof -
  from assms show "same_shape a b"
    by (auto simp: same_shape_def square_matrix_def list_all_iff list_all2_conv_all_nth)
  from assms show "square_matrix n (map2 (map2 (+)) a b)"
    by (auto simp: square_matrix_def list_all_iff dest!: set_zip_leftD set_zip_rightD
        elim!: in_set_zipE)
qed

lemma confusion_matrix_square:
  assumes "confusion_matrix y_true y_pred labels = Inr m"
  shows "square_matrix (length labels) m"
  using assms
  by (auto simp: confusion_matrix_def square_matrix_def Let_def list_all_iff split: if_splits)

lemma batch_confusion_matrices_square:
  assumes "batch_confusion_matrices objpart_dat semantic_dat (objpart_labels, semantic_labels)
             = Inr (cur_sem, cur_part)"
  shows "square_matrix (length semantic_labels) cur_sem"
    and "square_matrix (length objpart_labels) cur_part"
proof -
  obtain ol oa sl sa where "objpart_dat = (ol, oa)" and "semantic_dat = (sl, sa)"
    by (cases objpart_dat, cases semantic_dat) blast
  with batch_confusion_matrices_Inr [of ol oa sl sa objpart_labels semantic_labels cur_sem cur_part]
    assms
  show "square_matrix (length semantic_labels) cur_sem"
    and "square_matrix (length objpart_labels) cur_part"
    by (auto dest: confusion_matrix_square)
qed

lemma accumulate_Some_square:
  assumes "square_matrix n overall" and "square_matrix n current"
  shows "accumulate (Some overall) current = Inr (map2 (map2 (+)) overall current)"
  using square_matrix_madd(1) [OF assms] by (simp add: accumulate_def iadd_def)

lemma validate_batch_value:
  assumes "batch_confusion_matrices objpart_dat semantic_dat labels = Inr (cur_sem, cur_part)"
    and "accumulate overall_sem cur_sem = Inr sem'"
    and "accumulate overall_part cur_part = Inr part'"
  shows "validate_batch objpart_dat semantic_dat overall_part overall_sem labels =
     Inr (fst (batch_metrics cur_sem cur_part), snd (batch_metrics cur_sem cur_part), part', sem')"
  using assms by (simp add: validate_batch_def err_bind_def split_beta)

lemma evaluation_pass_batches_ok:
  "evaluation_pass labels bs running = Inr r \<Longrightarrow>
     \<forall>b \<in> set bs. \<exists>cs cp. batch_confusion_matrices (fst b) (snd b) labels = Inr (cs, cp)"
proof (induction bs arbitrary: running)
  case Nil
  then show ?case by simp
next
  case (Cons b bs)
  from Cons.prems obtain metrics mIoU part' sem' where
    vb: "validate_batch (fst b) (snd b) (fst running) (snd running) labels
           = Inr (metrics, mIoU, part', sem')"
    and rest: "evaluation_pass labels bs (Some part', Some sem') = Inr r"
    by (auto simp: err_bind_Inr_iff)
  from validate_batch_Inr [OF vb] Cons.IH [OF rest] show ?case by auto
qed

lemma evaluation_pass_running:
  "\<forall>b \<in> set bs. \<exists>cs cp. batch_confusion_matrices (fst b) (snd b) (ol, sl) = Inr (cs, cp) \<Longrightarrow>
   square_matrix (length ol) p \<Longrightarrow> square_matrix (length sl) s \<Longrightarrow>
   evaluation_pass (ol, sl) bs (Some p, Some s) =
     Inr (Some (fold (\<lambda>m acc. map2 (map2 (+)) acc m)
                  (map (\<lambda>b. snd (projr (batch_confusion_matrices (fst b) (snd b) (ol, sl)))) bs) p),
          Some (fold (\<lambda>m acc. map2 (map2 (+)) acc m)
                  (map (\<lambda>b. fst (projr (batch_confusion_matrices (fst b) (snd b) (ol, sl)))) bs) s))"
proof (induction bs arbitrary: p s)
  case Nil
  then show ?case by simp
next
  case (Cons b bs)
  from Cons.prems(1) obtain cs cp where
    cur: "batch_confusion_matrices (fst b) (snd b) (ol, sl) = Inr (cs, cp)"
    by auto
  note sq = batch_confusion_matrices_square [OF cur]
  have vb: "validate_batch (fst b) (snd b) (Some p) (Some s) (ol, sl) =
     Inr (fst (batch_metrics cs cp), snd (batch_metrics cs cp),
          map2 (map2 (+)) p cp, map2 (map2 (+)) s cs)"
    by (rule validate_batch_value [OF cur])
      (simp_all add: accumulate_Some_square [OF Cons.prems(3) sq(1)]
        accumulate_Some_square [OF Cons.prems(2) sq(2)])
  have "evaluation_pass (ol, sl) bs (Some (map2 (map2 (+)) p cp), Some (map2 (map2 (+)) s cs)) =
     Inr (Some (fold (\<lambda>m acc. map2 (map2 (+)) acc m)
                  (map (\<lambda>b. snd (projr (batch_confusion_matrices (fst b) (snd b) (ol, sl)))) bs)
                  (map2 (map2 (+)) p cp)),
          Some (fold (\<lambda>m acc. map2 (map2 (+)) acc m)
                  (map (\<lambda>b. fst (projr (batch_confusion_matrices (fst b) (snd b) (ol, sl)))) bs)
                  (map2 (map2 (+)) s cs)))"
    using Cons.prems(1) square_matrix_madd(2) [OF Cons.prems(2) sq(2)]
      square_matrix_madd(2) [OF Cons.prems(3) sq(1)]
    by (intro Cons.IH) simp_all
  with vb cur show ?case by (simp add: err_bind_def)
qed

lemma evaluation_pass_start:
  assumes "\<forall>b \<in> set bs. \<exists>cs cp. batch_confusion_matrices (fst b) (snd b) (ol, sl) = Inr (cs, cp)"
    and "bs \<noteq> []"
  shows "evaluation_pass (ol, sl) bs (None, None) =
     Inr (Some (fold (\<lambda>m acc. map2 (map2 (+)) acc m)
                  (map (\<lambda>b. snd (projr (batch_confusion_matrices (fst b) (snd b) (ol, sl)))) bs)
                  (replicate (length ol) (replicate (length ol) 0))),
          Some (fold (\<lambda>m acc. map2 (map2 (+)) acc m)
                  (map (\<lambda>b. fst (projr (batch_confusion_matrices (fst b) (snd b) (ol, sl)))) bs)
                  (replicate (length sl) (replicate (length sl) 0))))"
proof -
  from assms(2) obtain b rest where bs: "bs = b # rest" by (cases bs) auto
  with assms(1) obtain cs cp where
    cur: "batch_confusion_matrices (fst b) (snd b) (ol, sl) = Inr (cs, cp)"
    by auto
  note sq = batch_confusion_matrices_square [OF cur]
  have vb: "validate_batch (fst b) (snd b) None None (ol, sl) =
     Inr (fst (batch_metrics cs cp), snd (batch_metrics cs cp), cp, cs)"
    by (rule validate_batch_value [OF cur]) (simp_all add: accumulate_def)
  from assms(1) bs
  have "\<forall>b \<in> set rest. \<exists>cs cp. batch_confusion_matrices (fst b) (snd b) (ol, sl) = Inr (cs, cp)"
    by simp
  from evaluation_pass_running [OF this sq(2) sq(1)] vb cur show ?thesis
    by (simp add: bs err_bind_def madd_zeros [OF sq(1)] madd_zeros [OF sq(2)])
qed

lemma fold_madd_permute:
  fixes ms ms' :: "matrix list"
  assumes "mset ms' = mset ms"
  shows "fold (\<lambda>m acc. map2 (map2 (+)) acc m) ms' z = fold (\<lambda>m acc. map2 (map2 (+)) acc m) ms z"
proof -
  have "fold (\<lambda>m acc. map2 (map2 (+)) acc m) ms' = fold (\<lambda>m acc. map2 (map2 (+)) acc m) ms"
    by (rule fold_multiset_equiv [OF _ assms]) (simp add: fun_eq_iff madd_left_commute)
  then show ?thesis by simp
qed

lemma batch_confusion_matrices_example2:
  "batch_confusion_matrices (example_objpart_logits, example_anno)
     (example_logits, example_anno) ([3, 23], [0, 1])
   = Inr ([[0, 1], [0, 0]], [[0, 1], [0, 0]])"
proof -
  have "numpyify_logits_and_annotations example_logits example_anno = Inr ([1, 1], [3, 0])"
    by (simp add: numpyify_logits_and_annotations_def example_logits_def example_anno_def
        np_flatten_def elem_def offset_def upt_rec np_argmax_pair err_bind_def)
  moreover have "confusion_matrix [3, 0] [1, 1] [0, 1] = Inr [[0, 1], [0, 0]]"
    by (simp add: confusion_matrix_def upt_rec)
  ultimately show ?thesis
    by (simp add: batch_confusion_matrices_def outputs_tonp_gt_example_flat
        confusion_matrix_examples err_bind_def)
qed

lemma evaluation_pass_example:
  "evaluation_pass ([3, 23], [0, 1]) example_batches (None, None) =
     Inr (Some [[0, 2], [0, 0]], Some [[0, 2], [0, 1]])"
proof -
  have "evaluation_pass ([3, 23], [0, 1]) example_batches (None, None) =
     Inr (Some (fold (\<lambda>m acc. map2 (map2 (+)) acc m)
                  (map (\<lambda>b. snd (projr (batch_confusion_matrices (fst b) (snd b) ([3, 23], [0, 1]))))
                     example_batches)
                  (replicate (length [3, 23 :: int]) (replicate (length [3, 23 :: int]) 0))),
          Some (fold (\<lambda>m acc. map2 (map2 (+)) acc m)
                  (map (\<lambda>b. fst (projr (batch_confusion_matrices (fst b) (snd b) ([3, 23], [0, 1]))))
                     example_batches)
                  (replicate (length [0, 1 :: int]) (replicate (length [0, 1 :: int]) 0))))"
    by (rule evaluation_pass_start)
      (auto simp: example_batches_def batch_confusion_matrices_example
        batch_confusion_matrices_example2)
  then show ?thesis
    by (simp add: example_batches_def batch_confusion_matrices_example
        batch_confusion_matrices_example2 numeral_2_eq_2)
qed

text \<open>
  C5. \<^verbatim>\<open>validate_batch\<close> returns, for each task, the accumulation of the running matrix
  and the batch's matrix: the batch's matrix when the running matrix is \<^verbatim>\<open>None\<close>, and
  their elementwise sum otherwise. A pass over the batches in any other order ends with
  the same two matrices.
\<close>

theorem accumulate_order_independent:
  assumes "evaluation_pass labels batches (None, None) = Inr running"
    and "mset batches' = mset batches"
  shows "evaluation_pass labels batches' (None, None) = Inr running
    \<and> accumulate None current = Inr current
    \<and> (same_shape overall current \<longrightarrow>
          accumulate (Some overall) current = Inr (map2 (map2 (+)) overall current))
    \<and> (validate_batch objpart_dat semantic_dat overall_part overall_sem labels
          = Inr (metrics, mIoU, part', sem') \<longrightarrow>
        (\<exists>cur_sem cur_part.
            batch_confusion_matrices objpart_dat semantic_dat labels = Inr (cur_sem, cur_part)
          \<and> accumulate overall_sem cur_sem = Inr sem'
          \<and> accumulate overall_part cur_part = Inr part'))"
proof -
  obtain ol sl where labels: "labels = (ol, sl)" by (cases labels)
  have same: "evaluation_pass labels batches' (None, None) = Inr running"
  proof (cases "batches = []")
    case True
    with assms show ?thesis by simp
  next
    case False
    with assms(2) have ne': "batches' \<noteq> []" by auto
    from evaluation_pass_batches_ok [OF assms(1)]
    have ok: "\<forall>b \<in> set batches.
        \<exists>cs cp. batch_confusion_matrices (fst b) (snd b) (ol, sl) = Inr (cs, cp)"
      by (simp add: labels)
    moreover from assms(2) have "set batches' = set batches" by (rule mset_eq_setD)
    ultimately have ok': "\<forall>b \<in> set batches'.
        \<exists>cs cp. batch_confusion_matrices (fst b) (snd b) (ol, sl) = Inr (cs, cp)"
      by simp
    have perm: "mset (map g batches') = mset (map g batches)" for g :: "_ \<Rightarrow> matrix"
      using assms(2) by simp
    from evaluation_pass_start [OF ok' ne'] evaluation_pass_start [OF ok False] assms(1)
    show ?thesis
      by (simp add: labels fold_madd_permute [OF perm])
  qed
  have init: "accumulate None current = Inr current"
    by (simp add: accumulate_def)
  have add: "accumulate (Some overall) current = Inr (map2 (map2 (+)) overall current)"
    if "same_shape overall current"
    using that by (simp add: accumulate_def iadd_def)
  from same init add validate_batch_Inr [of objpart_dat semantic_dat overall_part overall_sem
      labels metrics mIoU part' sem']
  show ?thesis by blast
qed


theorem accumulate_order_independent_witness:
  "evaluation_pass ([3, 23], [0, 1]) example_batches (None, None)
     = Inr (Some [[0, 2], [0, 0]], Some [[0, 2], [0, 1]])
   \<and> mset (rev example_batches) = mset example_batches
   \<and> rev example_batches =
       [((example_objpart_logits, example_anno), (example_logits, example_anno)),
        ((example_objpart_logits, example_anno), (example_logits, example_semantic_anno))]
   \<and> evaluation_pass ([3, 23], [0, 1]) (rev example_batches) (None, None)
     = Inr (Some [[0, 2], [0, 0]], Some [[0, 2], [0, 1]])
   \<and> same_shape [[0, 1], [0, 1]] [[0, 1], [0, 0]]
   \<and> accumulate (Some [[0, 1], [0, 1]]) [[0, 1], [0, 0]] = Inr [[0, 2], [0, 1]]"
proof -
  have perm: "mset (rev example_batches) = mset example_batches" by simp
  have shp: "same_shape [[0, 1], [0, 1]] [[0, 1], [0, 0]]"
    by (simp add: same_shape_def)
  note inst = accumulate_order_independent [OF evaluation_pass_example perm,
      where current = "[[0, 1], [0, 0]]" and overall = "[[0, 1], [0, 1]]"
        and objpart_dat = "(example_objpart_logits, example_anno)"
        and semantic_dat = "(example_logits, example_semantic_anno)"
        and overall_part = None and overall_sem = None
        and metrics = "(Finite 0, Finite 0)" and mIoU = "Finite (1 / 4)"
        and part' = "[[0, 1], [0, 0]]" and sem' = "[[0, 1], [0, 1]]"]
  from inst shp
  have "evaluation_pass ([3, 23], [0, 1]) (rev example_batches) (None, None)
     = Inr (Some [[0, 2], [0, 0]], Some [[0, 2], [0, 1]])"
    and "accumulate (Some [[0, 1], [0, 1]]) [[0, 1], [0, 0]] = Inr [[0, 2], [0, 1]]"
    by simp_all
  with evaluation_pass_example perm shp show ?thesis
    by (simp add: example_batches_def)
qed

end
